theory Spec2Isabelle
  imports Main "HOL-Library.Word"
begin

unbundle bit_operations_syntax

section \<open>The VXLAN driver (drivers/net/vxlan.c): data model\<close>

text \<open>
  Integers have the widths of the C types: \<open>u8\<close>, \<open>u16\<close>, \<open>u32\<close>, and
  \<open>unsigned long\<close> (64 bits, the LP64 kernel). A value the driver keeps in network byte
  order (\<open>__be16\<close>, \<open>__be32\<close>) is modelled by the number it denotes on the wire, so
  \<open>htonl\<close>, \<open>ntohl\<close>, \<open>htons\<close> and \<open>ntohs\<close> are the identity on the model.
\<close>

type_synonym u8 = "8 word"
type_synonym u16 = "16 word"
type_synonym u32 = "32 word"
type_synonym u64 = "64 word"
type_synonym ulong = "64 word"

text \<open>\<open>u8 eth_addr[ETH_ALEN]\<close>: the six octets, first octet first.\<close>

datatype ether_addr = EtherAddr u8 u8 u8 u8 u8 u8

definition all_zeros_mac :: ether_addr where
  "all_zeros_mac = EtherAddr 0 0 0 0 0 0"

text \<open>
  Modelled from the spec: \<open>is_multicast_ether_addr\<close> and \<open>is_zero_ether_addr\<close> are
  inline functions of \<open>linux/etherdevice.h\<close>, which is not among the sources. The spec
  speaks of a "multicast or all-zero MAC"; a MAC is multicast when the low bit of its first
  octet is set (so \<open>01:00:5e:...\<close> is), and zero when all six octets are.
\<close>

fun is_multicast_ether_addr :: "ether_addr \<Rightarrow> bool" where
  "is_multicast_ether_addr (EtherAddr a0 a1 a2 a3 a4 a5) = (a0 AND 1 \<noteq> 0)"

fun is_zero_ether_addr :: "ether_addr \<Rightarrow> bool" where
  "is_zero_ether_addr (EtherAddr a0 a1 a2 a3 a4 a5) = (a0 OR a1 OR a2 OR a3 OR a4 OR a5 = 0)"

definition is_valid_ether_addr :: "ether_addr \<Rightarrow> bool" where
  "is_valid_ether_addr a = (\<not> is_multicast_ether_addr a \<and> \<not> is_zero_ether_addr a)"

text \<open>The error numbers the modelled functions return (as \<open>-E...\<close> in the source).\<close>

datatype errno = EEXIST | ENOENT | ENOSPC | EOPNOTSUPP | ENOMEM | ENOBUFS
  | EINVAL | ERANGE | EADDRNOTAVAIL

definition VXLAN_N_VID :: u32 where
  "VXLAN_N_VID = push_bit 24 1"

definition VXLAN_VID_MASK :: u32 where
  "VXLAN_VID_MASK = VXLAN_N_VID - 1"

definition VXLAN_FLAGS :: u32 where
  "VXLAN_FLAGS = 0x08000000"

definition ETH_ALEN :: nat where
  "ETH_ALEN = 6"

text \<open>\<open>VXLAN_HLEN = sizeof(struct udphdr) + sizeof(struct vxlanhdr)\<close>, 8 + 8 bytes.\<close>

definition VXLAN_HLEN :: nat where
  "VXLAN_HLEN = 8 + 8"

section \<open>Endpoint-create validation: \<open>vxlan_validate\<close>\<close>

text \<open>
  The attributes \<open>vxlan_validate\<close> reads: \<open>tb[IFLA_ADDRESS]\<close> is the attribute's payload
  (its length is \<open>nla_len\<close>), absent when the pointer is NULL; \<open>data\<close> is absent when NULL,
  and holds the optional \<open>IFLA_VXLAN_ID\<close> and \<open>IFLA_VXLAN_PORT_RANGE\<close> (low, high).
\<close>

record vxlan_data =
  IFLA_VXLAN_ID :: "u32 option"
  IFLA_VXLAN_PORT_RANGE :: "(u16 \<times> u16) option"

fun validate_address :: "u8 list option \<Rightarrow> errno + unit" where
  "validate_address None = Inr ()"
| "validate_address (Some [a0, a1, a2, a3, a4, a5]) =
     (if \<not> is_valid_ether_addr (EtherAddr a0 a1 a2 a3 a4 a5) then Inl EADDRNOTAVAIL
      else Inr ())"
| "validate_address (Some _) = Inl EINVAL"

definition vxlan_validate :: "u8 list option \<Rightarrow> vxlan_data option \<Rightarrow> errno + unit" where
  "vxlan_validate tb_address data =
     (case validate_address tb_address of
        Inl e \<Rightarrow> Inl e
      | Inr _ \<Rightarrow>
          (case data of
             None \<Rightarrow> Inl EINVAL
           | Some d \<Rightarrow>
               if (case IFLA_VXLAN_ID d of Some vid \<Rightarrow> vid \<ge> VXLAN_VID_MASK | None \<Rightarrow> False)
               then Inl ERANGE
               else if (case IFLA_VXLAN_PORT_RANGE d of
                          Some (low, high) \<Rightarrow> high < low | None \<Rightarrow> False)
               then Inl EINVAL
               else Inr ()))"

section \<open>Receive: \<open>vxlan_udp_encap_recv\<close>\<close>

text \<open>
  The socket buffer as the driver reads it: the bytes from \<open>skb->data\<close> on, and
  \<open>skb->protocol\<close>. \<open>protocol\<close> is the 16-bit value of that field as the machine holds
  it: the field is a \<open>__be16\<close>, so on a little-endian host it is the protocol number
  with its two bytes swapped. No function of the model converts it. When the UDP layer
  calls \<open>vxlan_udp_encap_recv\<close>, \<open>skb->data\<close> is at the UDP header, so
  \<open>udp_hdr(skb) + 1\<close> is the byte at offset 8.
\<close>

record sk_buff =
  data :: "u8 list"
  protocol :: u16

text \<open>
  Modelled from the spec: \<open>pskb_may_pull\<close> (\<open>linux/skbuff.h\<close>) is not among the sources.
  The spec's receive path starts with "validate length": the pull succeeds when the buffer
  holds at least \<open>len\<close> bytes.
\<close>

definition pskb_may_pull :: "sk_buff \<Rightarrow> nat \<Rightarrow> bool" where
  "pskb_may_pull skb len = (len \<le> length (data skb))"

text \<open>A \<open>__be32\<close> field at byte offset \<open>i\<close>, as the number it denotes on the wire.\<close>

definition be32_at :: "u8 list \<Rightarrow> nat \<Rightarrow> u32" where
  "be32_at bs i =
     push_bit 24 (ucast (bs ! i)) OR push_bit 16 (ucast (bs ! (i + 1)))
     OR push_bit 8 (ucast (bs ! (i + 2))) OR ucast (bs ! (i + 3))"

text \<open>\<open>struct vxlanhdr\<close> at \<open>udp_hdr(skb) + 1\<close>.\<close>

definition vx_flags :: "sk_buff \<Rightarrow> u32" where
  "vx_flags skb = be32_at (data skb) 8"

definition vx_vni :: "sk_buff \<Rightarrow> u32" where
  "vx_vni skb = be32_at (data skb) 12"

text \<open>
  What \<open>vxlan_udp_encap_recv\<close> does with the packet: \<open>NotVxlan\<close> is \<open>return 1\<close> at the
  label \<open>error\<close> (the packet goes back to the UDP layer), \<open>Consumed\<close> is \<open>kfree_skb\<close>
  and \<open>return 0\<close> at the label \<open>drop\<close>, and \<open>Rcv vs skb vni\<close> is the call
  \<open>vs->rcv(vs, skb, vxh->vx_vni)\<close> followed by \<open>return 0\<close>.
\<close>

datatype 'vs encap_recv = NotVxlan | Consumed | Rcv 'vs sk_buff u32

text \<open>
  \<open>iptunnel_pull_header\<close> and the socket table behind \<open>vxlan_find_sock\<close> are outside the
  sources; they are parameters: \<open>pull_header skb\<close> is the buffer after
  \<open>iptunnel_pull_header(skb, VXLAN_HLEN, htons(ETH_P_TEB))\<close>, or \<open>None\<close> when that call
  returns non-zero, and \<open>find_sock\<close> is the result of \<open>vxlan_find_sock(sock_net(sk), port)\<close>.
\<close>

definition vxlan_udp_encap_recv ::
  "(sk_buff \<Rightarrow> sk_buff option) \<Rightarrow> 'vs option \<Rightarrow> sk_buff \<Rightarrow> 'vs encap_recv" where
  "vxlan_udp_encap_recv pull_header find_sock skb =
     (if \<not> pskb_may_pull skb VXLAN_HLEN then NotVxlan
      else if vx_flags skb \<noteq> VXLAN_FLAGS \<or> vx_vni skb AND 0xff \<noteq> 0 then NotVxlan
      else (case pull_header skb of
              None \<Rightarrow> Consumed
            | Some skb' \<Rightarrow>
                (case find_sock of
                   None \<Rightarrow> Consumed
                 | Some vs \<Rightarrow> Rcv vs skb' (vx_vni skb))))"

section \<open>The forwarding table and the device\<close>

record vxlan_rdst =
  remote_ip :: u32
  remote_port :: u16
  remote_vni :: u32
  remote_ifindex :: u32

text \<open>
  \<open>struct vxlan_fdb\<close>. The \<open>remotes\<close> list is the list of destinations in list order; the
  hash chain link is the position of the entry in its bucket.
\<close>

record vxlan_fdb =
  updated :: ulong
  used :: ulong
  remotes :: "vxlan_rdst list"
  state :: u16
  flags :: u8
  eth_addr :: ether_addr

text \<open>
  \<open>struct vxlan_dev\<close>, with the fields the modelled functions read or write. The device
  flags \<open>vxlan->flags\<close> are \<open>vflags\<close> (the entry's \<open>flags\<close> has the name already).
  \<open>fdb_head\<close> is the array of \<open>FDB_HASH_SIZE\<close> = 256 hash chains, indexed by the 8-bit
  hash; a chain is the list of its entries, head first. \<open>netif_running\<close> is
  \<open>netif_running(vxlan->dev)\<close>, a bit of the net device that the device framework sets
  and clears. \<open>age_timer\<close> is the expiry of the pending ageing timer, if one is pending.
\<close>

record vxlan_dev =
  default_dst :: vxlan_rdst
  saddr :: u32
  dst_port :: u16
  port_min :: u16
  port_max :: u16
  tos :: u8
  ttl :: u8
  vflags :: u32
  age_interval :: ulong
  age_timer :: "ulong option"
  addrcnt :: u32
  addrmax :: u32
  fdb_head :: "u8 \<Rightarrow> vxlan_fdb list"
  netif_running :: bool

definition VXLAN_F_LEARN :: u32 where
  "VXLAN_F_LEARN = 0x01"


section \<open>Transmit: \<open>vxlan_src_port\<close> and \<open>vxlan_xmit_one\<close>\<close>

text \<open>
  \<open>jhash\<close> (\<open>linux/jhash.h\<close>) is outside the sources and is a parameter: a function of the
  bytes hashed and of the initial value. \<open>vxlan_src_port\<close> hashes the first
  \<open>2 * ETH_ALEN\<close> bytes at \<open>skb->data\<close> (the inner destination and source MAC) with
  \<open>(__force u32) skb->protocol\<close> as initial value: the stored 16 bits of the field,
  zero-extended and not byte-swapped, which is \<open>ucast (protocol skb)\<close>. \<open>range\<close> is an
  \<open>unsigned int\<close>, the product is taken in 64 bits, and \<open>htons\<close> takes the low 16 bits
  of the sum.
\<close>

definition vxlan_src_port :: "(u8 list \<Rightarrow> u32 \<Rightarrow> u32) \<Rightarrow> u16 \<Rightarrow> u16 \<Rightarrow> sk_buff \<Rightarrow> u16" where
  "vxlan_src_port jhash pmin pmax skb =
     (let range = ((ucast pmax :: u32) - ucast pmin) + 1;
          hash = jhash (take (2 * ETH_ALEN) (data skb)) (ucast (protocol skb))
      in ucast (drop_bit 32 ((ucast hash :: u64) * ucast range) + ucast pmin))"

text \<open>\<open>IN_MULTICAST(a)\<close> of \<open>linux/in.h\<close>: a class D address.\<close>

definition IN_MULTICAST :: "u32 \<Rightarrow> bool" where
  "IN_MULTICAST a = (a AND 0xf0000000 = 0xe0000000)"

text \<open>\<open>RT_TOS(tos)\<close> of \<open>net/route.h\<close>: \<open>tos & IPTOS_TOS_MASK\<close>.\<close>

definition RT_TOS :: "u8 \<Rightarrow> u8" where
  "RT_TOS t = t AND 0x1E"

text \<open>
  The route \<open>ip_route_output_key\<close> returns, with what \<open>vxlan_xmit_one\<close> reads of it:
  whether its output device is the VXLAN device itself, whether \<open>RTCF_LOCAL\<close> is set,
  whether \<open>RTCF_BROADCAST\<close> or \<open>RTCF_MULTICAST\<close> is, and its hop limit metric.
\<close>

record rtable =
  rt_dev_is_self :: bool
  rt_local :: bool
  rt_bcast_mcast :: bool
  rt_hoplimit :: u8

text \<open>
  The services of the IP layer \<open>vxlan_xmit_one\<close> calls, all outside the sources, as
  parameters: \<open>xe_jhash\<close>; \<open>xe_dsfield\<close>, the value of
  \<open>ip_tunnel_get_dsfield(old_iph, skb)\<close> (the inner header's TOS byte);
  \<open>xe_ecn_encap tos\<close>, the value of \<open>ip_tunnel_ecn_encap(tos, old_iph, skb)\<close>;
  \<open>xe_route oif dst src tos\<close>, the result of \<open>ip_route_output_key\<close> on that flow
  (\<open>None\<close> on error); and \<open>xe_find_vni vni port\<close>, whether \<open>vxlan_find_vni\<close> finds a
  device.
\<close>

record xmit_env =
  xe_jhash :: "u8 list \<Rightarrow> u32 \<Rightarrow> u32"
  xe_dsfield :: u8
  xe_ecn_encap :: "u8 \<Rightarrow> u8"
  xe_route :: "u32 \<Rightarrow> u32 \<Rightarrow> u32 \<Rightarrow> u8 \<Rightarrow> rtable option"
  xe_find_vni :: "u32 \<Rightarrow> u16 \<Rightarrow> bool"

text \<open>The arguments of the call of \<open>vxlan_xmit_skb\<close> that builds the outer headers.\<close>

record xmit_skb_args =
  xs_src :: u32
  xs_dst :: u32
  xs_tos :: u8
  xs_ttl :: u8
  xs_df :: u16
  xs_src_port :: u16
  xs_dst_port :: u16
  xs_vni :: u32

text \<open>
  The ways \<open>vxlan_xmit_one\<close> ends: the bypass to the local bridge, \<open>tx_dropped\<close>,
  \<open>tx_carrier_errors\<close> (no route), \<open>collisions\<close> (circular route), the bypass to a
  VXLAN device of this host (\<open>tx_errors\<close> when there is none), and the encapsulation.
\<close>

datatype xmit_one = Bypass_self | Tx_dropped | Tx_carrier_error | Tx_collision
  | Bypass_local u32 u16 | Tx_error | Xmit_skb xmit_skb_args

definition vxlan_xmit_one :: "xmit_env \<Rightarrow> vxlan_dev \<Rightarrow> sk_buff \<Rightarrow> vxlan_rdst \<Rightarrow> bool \<Rightarrow> xmit_one" where
  "vxlan_xmit_one E vxlan skb rdst did_rsc =
     (let dport = (if remote_port rdst \<noteq> 0 then remote_port rdst else dst_port vxlan);
          vni = remote_vni rdst;
          dst = remote_ip rdst
      in if dst = 0 then (if did_rsc then Bypass_self else Tx_dropped)
         else
           let ttl1 = (if ttl vxlan = 0 \<and> IN_MULTICAST dst then 1 else ttl vxlan);
               tos1 = (if tos vxlan = 1 then xe_dsfield E else tos vxlan);
               sport = vxlan_src_port (xe_jhash E) (port_min vxlan) (port_max vxlan) skb
           in case xe_route E (remote_ifindex rdst) dst (saddr vxlan) (RT_TOS tos1) of
                None \<Rightarrow> Tx_carrier_error
              | Some rt \<Rightarrow>
                  if rt_dev_is_self rt then Tx_collision
                  else if rt_local rt \<and> \<not> rt_bcast_mcast rt then
                    (if xe_find_vni E vni dport then Bypass_local vni dport else Tx_error)
                  else
                    Xmit_skb \<lparr>xs_src = saddr vxlan, xs_dst = dst,
                      xs_tos = xe_ecn_encap E tos1,
                      xs_ttl = (if ttl1 \<noteq> 0 then ttl1 else rt_hoplimit rt),
                      xs_df = 0, xs_src_port = sport, xs_dst_port = dport,
                      xs_vni = push_bit 8 vni\<rparr>)"

text \<open>
  Modelled from the spec: \<open>INET_ECN_encapsulate\<close> (\<open>net/inet_ecn.h\<close>), which
  \<open>ip_tunnel_ecn_encap\<close> applies to an IPv4 inner header, is not among the sources. The
  spec: "copy the inner IP's ECN codepoint into the outer IP ECN field", "never
  encapsulate ECT with CE outer" (a CE inner gives ECT(0) outside); the six DSCP bits of
  the outer byte are kept.
\<close>

definition INET_ECN_encapsulate :: "u8 \<Rightarrow> u8 \<Rightarrow> u8" where
  "INET_ECN_encapsulate outer inner =
     (outer AND NOT 3) OR (if inner AND 3 = 3 then 2 else inner AND 3)"


section \<open>The forwarding table: lookup, create, delete\<close>

text \<open>
  Constants of the kernel ABI that the driver uses; the headers that define them
  (\<open>linux/neighbour.h\<close>, \<open>linux/netlink.h\<close>) are not among the sources. The neighbour
  states \<open>NUD_*\<close> and the netlink flags \<open>NLM_F_*\<close> are single bits, tested with \<open>&\<close>.
\<close>

definition NUD_REACHABLE :: u16 where "NUD_REACHABLE = 0x02"
definition NUD_STALE :: u16 where "NUD_STALE = 0x04"
definition NUD_NOARP :: u16 where "NUD_NOARP = 0x40"
definition NUD_PERMANENT :: u16 where "NUD_PERMANENT = 0x80"

definition NLM_F_REPLACE :: u16 where "NLM_F_REPLACE = 0x100"
definition NLM_F_EXCL :: u16 where "NLM_F_EXCL = 0x200"
definition NLM_F_CREATE :: u16 where "NLM_F_CREATE = 0x400"
definition NLM_F_APPEND :: u16 where "NLM_F_APPEND = 0x800"

definition NTF_SELF :: u8 where "NTF_SELF = 0x02"

definition FDB_HASH_SIZE :: nat where
  "FDB_HASH_SIZE = 2 ^ 8"

text \<open>
  What the functions below take from the rest of the kernel at the time of a call:
  \<open>eth_hash\<close>, the chain index of a MAC (the source computes it with \<open>hash_64\<close> of
  \<open>linux/hash.h\<close>, folded to \<open>FDB_HASH_BITS\<close> = 8 bits); the clock \<open>jiffies\<close> and the
  tick rate \<open>HZ\<close>; and whether the \<open>kmalloc(..., GFP_ATOMIC)\<close> of a \<open>struct vxlan_fdb\<close>
  and of a \<open>struct vxlan_rdst\<close> succeed.
\<close>

record kernel =
  eth_hash :: "ether_addr \<Rightarrow> u8"
  jiffies :: ulong
  HZ :: ulong
  kmalloc_fdb :: bool
  kmalloc_rdst :: bool

text \<open>\<open>vxlan_fdb_head\<close>: the hash chain of a MAC.\<close>

definition vxlan_fdb_head :: "kernel \<Rightarrow> vxlan_dev \<Rightarrow> ether_addr \<Rightarrow> vxlan_fdb list" where
  "vxlan_fdb_head K vxlan mac = fdb_head vxlan (eth_hash K mac)"

text \<open>
  \<open>__vxlan_find_mac\<close>: the first entry of the chain with this MAC. The source returns a
  pointer to the entry; the model returns the entry, and a write through the pointer is
  \<open>fdb_store\<close>, which overwrites that first entry of the chain (the MAC of an entry never
  changes). \<open>hlist_del\<close> unlinks it.
\<close>

definition vxlan_find_mac_raw :: "kernel \<Rightarrow> vxlan_dev \<Rightarrow> ether_addr \<Rightarrow> vxlan_fdb option" where
  "vxlan_find_mac_raw K vxlan mac = find (\<lambda>f. eth_addr f = mac) (vxlan_fdb_head K vxlan mac)"

fun hlist_store :: "vxlan_fdb \<Rightarrow> vxlan_fdb list \<Rightarrow> vxlan_fdb list" where
  "hlist_store f [] = []"
| "hlist_store f (g # gs) = (if eth_addr g = eth_addr f then f # gs else g # hlist_store f gs)"

fun hlist_del :: "ether_addr \<Rightarrow> vxlan_fdb list \<Rightarrow> vxlan_fdb list" where
  "hlist_del mac [] = []"
| "hlist_del mac (g # gs) = (if eth_addr g = mac then gs else g # hlist_del mac gs)"

definition fdb_store :: "kernel \<Rightarrow> vxlan_dev \<Rightarrow> vxlan_fdb \<Rightarrow> vxlan_dev" where
  "fdb_store K vxlan f =
     vxlan\<lparr>fdb_head := (fdb_head vxlan)
       (eth_hash K (eth_addr f) := hlist_store f (vxlan_fdb_head K vxlan (eth_addr f)))\<rparr>"

text \<open>\<open>vxlan_find_mac\<close>: the lookup of the packet path, which stamps \<open>f->used\<close>.\<close>

definition vxlan_find_mac :: "kernel \<Rightarrow> vxlan_dev \<Rightarrow> ether_addr \<Rightarrow> vxlan_fdb option \<times> vxlan_dev" where
  "vxlan_find_mac K vxlan mac =
     (case vxlan_find_mac_raw K vxlan mac of
        None \<Rightarrow> (None, vxlan)
      | Some f \<Rightarrow> (Some (f\<lparr>used := jiffies K\<rparr>), fdb_store K vxlan (f\<lparr>used := jiffies K\<rparr>)))"

definition vxlan_fdb_find_rdst :: "vxlan_fdb \<Rightarrow> u32 \<Rightarrow> u16 \<Rightarrow> u32 \<Rightarrow> u32 \<Rightarrow> vxlan_rdst option" where
  "vxlan_fdb_find_rdst f ip port vni ifindex =
     find (\<lambda>rd. remote_ip rd = ip \<and> remote_port rd = port \<and> remote_vni rd = vni
                \<and> remote_ifindex rd = ifindex) (remotes f)"

text \<open>
  \<open>first_remote_rcu\<close> is \<open>list_entry_rcu(fdb->remotes.next, ...)\<close>. On an empty list
  \<open>remotes.next\<close> is the list head inside the entry, not a destination: the result is
  \<open>None\<close> there, and a caller that dereferences it has no defined behaviour.
\<close>

definition first_remote_rcu :: "vxlan_fdb \<Rightarrow> vxlan_rdst option" where
  "first_remote_rcu f = (case remotes f of [] \<Rightarrow> None | rd # _ \<Rightarrow> Some rd)"

definition mk_rdst :: "u32 \<Rightarrow> u16 \<Rightarrow> u32 \<Rightarrow> u32 \<Rightarrow> vxlan_rdst" where
  "mk_rdst ip port vni ifindex =
     \<lparr>remote_ip = ip, remote_port = port, remote_vni = vni, remote_ifindex = ifindex\<rparr>"

text \<open>\<open>vxlan_fdb_replace\<close>: the return code (0 or 1) and the entry after the call.\<close>

definition vxlan_fdb_replace :: "vxlan_fdb \<Rightarrow> u32 \<Rightarrow> u16 \<Rightarrow> u32 \<Rightarrow> u32 \<Rightarrow> int \<times> vxlan_fdb" where
  "vxlan_fdb_replace f ip port vni ifindex =
     (case vxlan_fdb_find_rdst f ip port vni ifindex of
        Some rd \<Rightarrow> (0, f)
      | None \<Rightarrow>
          (case remotes f of
             [] \<Rightarrow> (0, f)
           | rd # rest \<Rightarrow> (1, f\<lparr>remotes := mk_rdst ip port vni ifindex # rest\<rparr>)))"

text \<open>
  \<open>vxlan_fdb_append\<close>: \<open>-ENOBUFS\<close> when the allocation fails, else the return code
  (0 or 1) and the entry after the call; \<open>list_add_tail_rcu\<close> adds at the end.
\<close>

definition vxlan_fdb_append ::
  "kernel \<Rightarrow> vxlan_fdb \<Rightarrow> u32 \<Rightarrow> u16 \<Rightarrow> u32 \<Rightarrow> u32 \<Rightarrow> errno + int \<times> vxlan_fdb" where
  "vxlan_fdb_append K f ip port vni ifindex =
     (case vxlan_fdb_find_rdst f ip port vni ifindex of
        Some rd \<Rightarrow> Inr (0, f)
      | None \<Rightarrow>
          if \<not> kmalloc_rdst K then Inl ENOBUFS
          else Inr (1, f\<lparr>remotes := remotes f @ [mk_rdst ip port vni ifindex]\<rparr>))"

text \<open>
  The two updates at the head of the existing-entry branch of \<open>vxlan_fdb_create\<close>:
  \<open>if (f->state != state) { f->state = state; f->updated = jiffies; }\<close> and the same
  for \<open>f->flags\<close> and \<open>ndm_flags\<close>.
\<close>

definition fdb_set_state_flags :: "kernel \<Rightarrow> vxlan_fdb \<Rightarrow> u16 \<Rightarrow> u8 \<Rightarrow> vxlan_fdb" where
  "fdb_set_state_flags K f st ndm =
     (let f1 = (if state f \<noteq> st then f\<lparr>state := st, updated := jiffies K\<rparr> else f)
      in if flags f1 \<noteq> ndm then f1\<lparr>flags := ndm, updated := jiffies K\<rparr> else f1)"

text \<open>
  \<open>vxlan_fdb_create\<close>, called with the hash lock held: the return code and the device
  after the call. \<open>nlm\<close> are the netlink flags (\<open>flags\<close> in the source), \<open>st\<close> the state and
  \<open>ndm\<close> the \<open>ndm_flags\<close>. On an existing entry the state and flags are written before
  REPLACE and APPEND are looked at, so they stay written when the call then fails. The
  netlink notification (\<open>notify\<close>) is not modelled.
\<close>

definition vxlan_fdb_create ::
  "kernel \<Rightarrow> vxlan_dev \<Rightarrow> ether_addr \<Rightarrow> u32 \<Rightarrow> u16 \<Rightarrow> u16 \<Rightarrow> u16 \<Rightarrow> u32 \<Rightarrow> u32 \<Rightarrow> u8
     \<Rightarrow> (errno + unit) \<times> vxlan_dev" where
  "vxlan_fdb_create K vxlan mac ip st nlm port vni ifindex ndm =
     (case vxlan_find_mac_raw K vxlan mac of
        Some f \<Rightarrow>
          if nlm AND NLM_F_EXCL \<noteq> 0 then (Inl EEXIST, vxlan)
          else
            let f2 = fdb_set_state_flags K f st ndm;
                mc = (is_multicast_ether_addr (eth_addr f2) \<or> is_zero_ether_addr (eth_addr f2))
            in if nlm AND NLM_F_REPLACE \<noteq> 0 \<and> mc then (Inl EOPNOTSUPP, fdb_store K vxlan f2)
               else
                 let f3 = (if nlm AND NLM_F_REPLACE \<noteq> 0
                           then snd (vxlan_fdb_replace f2 ip port vni ifindex) else f2)
                 in if nlm AND NLM_F_APPEND \<noteq> 0 \<and> mc then
                      (case vxlan_fdb_append K f3 ip port vni ifindex of
                         Inl e \<Rightarrow> (Inl e, fdb_store K vxlan f3)
                       | Inr (rc, f4) \<Rightarrow> (Inr (), fdb_store K vxlan f4))
                    else (Inr (), fdb_store K vxlan f3)
      | None \<Rightarrow>
          if nlm AND NLM_F_CREATE = 0 then (Inl ENOENT, vxlan)
          else if addrmax vxlan \<noteq> 0 \<and> addrcnt vxlan \<ge> addrmax vxlan then (Inl ENOSPC, vxlan)
          else if nlm AND NLM_F_REPLACE \<noteq> 0
                  \<and> (is_multicast_ether_addr mac \<or> is_zero_ether_addr mac)
          then (Inl EOPNOTSUPP, vxlan)
          else if \<not> kmalloc_fdb K then (Inl ENOMEM, vxlan)
          else
            let f = \<lparr>updated = jiffies K, used = jiffies K, remotes = [], state = st,
                     flags = ndm, eth_addr = mac\<rparr>;
                f' = (case vxlan_fdb_append K f ip port vni ifindex of
                        Inl e \<Rightarrow> f
                      | Inr (rc, g) \<Rightarrow> g)
            in (Inr (), vxlan\<lparr>addrcnt := addrcnt vxlan + 1,
                  fdb_head := (fdb_head vxlan)
                    (eth_hash K mac := f' # vxlan_fdb_head K vxlan mac)\<rparr>))"

text \<open>\<open>vxlan_fdb_destroy\<close>: the entry is counted out and unlinked from its chain.\<close>

definition vxlan_fdb_destroy :: "kernel \<Rightarrow> vxlan_dev \<Rightarrow> vxlan_fdb \<Rightarrow> vxlan_dev" where
  "vxlan_fdb_destroy K vxlan f =
     vxlan\<lparr>addrcnt := addrcnt vxlan - 1,
       fdb_head := (fdb_head vxlan)
         (eth_hash K (eth_addr f) := hlist_del (eth_addr f) (vxlan_fdb_head K vxlan (eth_addr f)))\<rparr>"

text \<open>\<open>list_is_singular\<close>: the list has exactly one member.\<close>

definition list_is_singular :: "'a list \<Rightarrow> bool" where
  "list_is_singular xs = (case xs of [x] \<Rightarrow> True | _ \<Rightarrow> False)"

text \<open>
  \<open>vxlan_fdb_delete\<close>, from the point where \<open>vxlan_fdb_parse\<close> has returned 0 with
  \<open>ip\<close>, \<open>port\<close>, \<open>vni\<close> and \<open>ifindex\<close> (an absent \<open>NDA_DST\<close> gives \<open>ip\<close> = 0, which is
  \<open>INADDR_ANY\<close>).
\<close>

definition vxlan_fdb_delete ::
  "kernel \<Rightarrow> vxlan_dev \<Rightarrow> ether_addr \<Rightarrow> u32 \<Rightarrow> u16 \<Rightarrow> u32 \<Rightarrow> u32 \<Rightarrow> (errno + unit) \<times> vxlan_dev" where
  "vxlan_fdb_delete K vxlan addr ip port vni ifindex =
     (case vxlan_find_mac K vxlan addr of
        (None, v) \<Rightarrow> (Inl ENOENT, v)
      | (Some f, v) \<Rightarrow>
          let rd = (if ip \<noteq> 0 then vxlan_fdb_find_rdst f ip port vni ifindex else None)
          in if ip \<noteq> 0 \<and> rd = None then (Inl ENOENT, v)
             else
               (case rd of
                  Some d \<Rightarrow>
                    if \<not> list_is_singular (remotes f)
                    then (Inr (), fdb_store K v (f\<lparr>remotes := remove1 d (remotes f)\<rparr>))
                    else (Inr (), vxlan_fdb_destroy K v f)
                | None \<Rightarrow> (Inr (), vxlan_fdb_destroy K v f)))"


section \<open>Learning: \<open>vxlan_snoop\<close>\<close>

text \<open>
  \<open>vxlan_snoop\<close>: whether the packet is to be dropped, and the device after the call.
  The result is \<open>None\<close> where the source dereferences \<open>first_remote_rcu\<close> of an entry
  whose list is empty. The return code of \<open>vxlan_fdb_create\<close> is ignored, as in the
  source; the rate-limited log line and the notification are not modelled.
\<close>

definition vxlan_snoop :: "kernel \<Rightarrow> vxlan_dev \<Rightarrow> u32 \<Rightarrow> ether_addr \<Rightarrow> (bool \<times> vxlan_dev) option" where
  "vxlan_snoop K vxlan src_ip src_mac =
     (case vxlan_find_mac K vxlan src_mac of
        (Some f, v) \<Rightarrow>
          (case first_remote_rcu f of
             None \<Rightarrow> None
           | Some rdst \<Rightarrow>
               if remote_ip rdst = src_ip then Some (False, v)
               else if state f AND NUD_NOARP \<noteq> 0 then Some (True, v)
               else Some (False,
                 fdb_store K v (f\<lparr>remotes := rdst\<lparr>remote_ip := src_ip\<rparr> # tl (remotes f),
                                   updated := jiffies K\<rparr>)))
      | (None, v) \<Rightarrow>
          if netif_running v
          then Some (False,
                 snd (vxlan_fdb_create K v src_mac src_ip NUD_REACHABLE
                        (NLM_F_EXCL OR NLM_F_CREATE) (dst_port v)
                        (remote_vni (default_dst v)) 0 NTF_SELF))
          else Some (False, v))"

text \<open>
  The two parts of \<open>vxlan_snoop\<close> after the lookup, as the steps of a receive thread
  below take them. \<open>vxlan_snoop_found\<close> is the branch for an entry that the lookup found
  (\<open>if (likely(f))\<close>): it reads and writes fields of that entry and of its first
  destination only, and does not take \<open>hash_lock\<close>. \<open>vxlan_snoop_learn\<close> is the call of
  \<open>vxlan_fdb_create\<close> in the other branch, which the source makes with \<open>hash_lock\<close> held
  and after the test of \<open>netif_running\<close>; its return code is ignored.
\<close>

definition vxlan_snoop_found :: "kernel \<Rightarrow> vxlan_dev \<Rightarrow> vxlan_fdb \<Rightarrow> u32 \<Rightarrow> (bool \<times> vxlan_dev) option" where
  "vxlan_snoop_found K v f src_ip =
     (case first_remote_rcu f of
        None \<Rightarrow> None
      | Some rdst \<Rightarrow>
          if remote_ip rdst = src_ip then Some (False, v)
          else if state f AND NUD_NOARP \<noteq> 0 then Some (True, v)
          else Some (False,
            fdb_store K v (f\<lparr>remotes := rdst\<lparr>remote_ip := src_ip\<rparr> # tl (remotes f),
                              updated := jiffies K\<rparr>)))"

definition vxlan_snoop_learn :: "kernel \<Rightarrow> vxlan_dev \<Rightarrow> u32 \<Rightarrow> ether_addr \<Rightarrow> vxlan_dev" where
  "vxlan_snoop_learn K v src_ip src_mac =
     snd (vxlan_fdb_create K v src_mac src_ip NUD_REACHABLE (NLM_F_EXCL OR NLM_F_CREATE)
            (dst_port v) (remote_vni (default_dst v)) 0 NTF_SELF)"

section \<open>Ageing and shutdown: \<open>vxlan_cleanup\<close>, \<open>vxlan_flush\<close>, \<open>vxlan_stop\<close>\<close>

text \<open>
  The jiffies comparisons of \<open>linux/jiffies.h\<close> (not among the sources), which compare
  the difference as a signed \<open>long\<close>: \<open>time_before_eq(a, b)\<close> is
  \<open>(long)(b) - (long)(a) >= 0\<close> and \<open>time_before(a, b)\<close> is \<open>(long)(a) - (long)(b) < 0\<close>.
\<close>

definition time_before_eq :: "ulong \<Rightarrow> ulong \<Rightarrow> bool" where
  "time_before_eq a b = (0 \<le> sint (b - a))"

definition time_before :: "ulong \<Rightarrow> ulong \<Rightarrow> bool" where
  "time_before a b = (sint (a - b) < 0)"

text \<open>\<open>FDB_AGE_INTERVAL\<close> is \<open>10 * HZ\<close>, the rescan interval.\<close>

definition FDB_AGE_INTERVAL :: "kernel \<Rightarrow> ulong" where
  "FDB_AGE_INTERVAL K = 10 * HZ K"

text \<open>
  The inner loop of \<open>vxlan_cleanup\<close> over one hash chain (\<open>hlist_for_each_safe\<close>), with
  the running \<open>addrcnt\<close> and \<open>next_timer\<close>: the chain, the count and the timer after it.
  A destroyed entry is unlinked and counted out (\<open>vxlan_fdb_destroy\<close>).
\<close>

fun vxlan_cleanup_chain ::
  "kernel \<Rightarrow> ulong \<Rightarrow> vxlan_fdb list \<Rightarrow> u32 \<Rightarrow> ulong \<Rightarrow> vxlan_fdb list \<times> u32 \<times> ulong" where
  "vxlan_cleanup_chain K age [] cnt next_timer = ([], cnt, next_timer)"
| "vxlan_cleanup_chain K age (f # fs) cnt next_timer =
     (if state f AND NUD_PERMANENT \<noteq> 0 then
        (case vxlan_cleanup_chain K age fs cnt next_timer of
           (fs', r) \<Rightarrow> (f # fs', r))
      else
        let timeout = used f + age * HZ K
        in if time_before_eq timeout (jiffies K)
           then vxlan_cleanup_chain K age fs (cnt - 1) next_timer
           else
             (case vxlan_cleanup_chain K age fs cnt
                     (if time_before timeout next_timer then timeout else next_timer) of
                (fs', r) \<Rightarrow> (f # fs', r)))"

text \<open>The outer loop, over the chains \<open>hs\<close> in turn.\<close>

fun vxlan_cleanup_loop ::
  "kernel \<Rightarrow> ulong \<Rightarrow> u8 list \<Rightarrow> (u8 \<Rightarrow> vxlan_fdb list) \<Rightarrow> u32 \<Rightarrow> ulong
     \<Rightarrow> (u8 \<Rightarrow> vxlan_fdb list) \<times> u32 \<times> ulong" where
  "vxlan_cleanup_loop K age [] heads cnt next_timer = (heads, cnt, next_timer)"
| "vxlan_cleanup_loop K age (h # hs) heads cnt next_timer =
     (case vxlan_cleanup_chain K age (heads h) cnt next_timer of
        (c, cnt', next_timer') \<Rightarrow>
          vxlan_cleanup_loop K age hs (heads(h := c)) cnt' next_timer')"

text \<open>The chain indices \<open>h = 0, ..., FDB_HASH_SIZE - 1\<close>, in the order of the \<open>for\<close> loops.\<close>

definition fdb_chains :: "u8 list" where
  "fdb_chains = map of_nat [0..<FDB_HASH_SIZE]"

text \<open>\<open>vxlan_cleanup\<close>, the timer function; \<open>mod_timer\<close> sets the next expiry.\<close>

definition vxlan_cleanup :: "kernel \<Rightarrow> vxlan_dev \<Rightarrow> vxlan_dev" where
  "vxlan_cleanup K vxlan =
     (if \<not> netif_running vxlan then vxlan
      else
        (case vxlan_cleanup_loop K (age_interval vxlan) fdb_chains (fdb_head vxlan)
                (addrcnt vxlan) (jiffies K + FDB_AGE_INTERVAL K) of
           (heads, cnt, next_timer) \<Rightarrow>
             vxlan\<lparr>fdb_head := heads, addrcnt := cnt, age_timer := Some next_timer\<rparr>))"

text \<open>\<open>vxlan_flush\<close>: every entry but the all-zero MAC's is destroyed.\<close>

fun vxlan_flush_chain :: "vxlan_fdb list \<Rightarrow> u32 \<Rightarrow> vxlan_fdb list \<times> u32" where
  "vxlan_flush_chain [] cnt = ([], cnt)"
| "vxlan_flush_chain (f # fs) cnt =
     (if \<not> is_zero_ether_addr (eth_addr f) then vxlan_flush_chain fs (cnt - 1)
      else (case vxlan_flush_chain fs cnt of (fs', cnt') \<Rightarrow> (f # fs', cnt')))"

fun vxlan_flush_loop ::
  "u8 list \<Rightarrow> (u8 \<Rightarrow> vxlan_fdb list) \<Rightarrow> u32 \<Rightarrow> (u8 \<Rightarrow> vxlan_fdb list) \<times> u32" where
  "vxlan_flush_loop [] heads cnt = (heads, cnt)"
| "vxlan_flush_loop (h # hs) heads cnt =
     (case vxlan_flush_chain (heads h) cnt of
        (c, cnt') \<Rightarrow> vxlan_flush_loop hs (heads(h := c)) cnt')"

definition vxlan_flush :: "vxlan_dev \<Rightarrow> vxlan_dev" where
  "vxlan_flush vxlan =
     (case vxlan_flush_loop fdb_chains (fdb_head vxlan) (addrcnt vxlan) of
        (heads, cnt) \<Rightarrow> vxlan\<lparr>fdb_head := heads, addrcnt := cnt\<rparr>)"

text \<open>
  \<open>vxlan_stop\<close> (\<open>ndo_stop\<close>): the timer is deleted and the table flushed; the queueing
  of the IGMP leave is not modelled.
\<close>

definition vxlan_stop :: "vxlan_dev \<Rightarrow> vxlan_dev" where
  "vxlan_stop vxlan = vxlan_flush (vxlan\<lparr>age_timer := None\<rparr>)"


section \<open>The receive path and the stop as threads under \<open>hash_lock\<close>\<close>

text \<open>
  \<open>vxlan_snoop\<close> runs in the receive path, on any CPU; \<open>vxlan_stop\<close> runs in the thread
  that closes the device. What orders their writes to the hash chains is the spin lock
  \<open>vxlan->hash_lock\<close>. The position of a receive thread in \<open>vxlan_snoop\<close>, with the outer
  source address and the inner source MAC of its packet where it still needs them:

  \<^item> \<open>Rx_idle\<close>: outside \<open>vxlan_snoop\<close>;
  \<^item> \<open>Rx_find\<close>: in \<open>vxlan_snoop\<close>, before the lookup \<open>vxlan_find_mac\<close>;
  \<^item> \<open>Rx_lock\<close>: the lookup found nothing, at \<open>spin_lock(&vxlan->hash_lock)\<close>;
  \<^item> \<open>Rx_check\<close>: the lock taken, at the test \<open>if (netif_running(dev))\<close>;
  \<^item> \<open>Rx_create\<close>: the test was true, at the call of \<open>vxlan_fdb_create\<close>;
  \<^item> \<open>Rx_unlock\<close>: at \<open>spin_unlock(&vxlan->hash_lock)\<close>;
  \<^item> \<open>Rx_fault\<close>: the thread has dereferenced \<open>first_remote_rcu\<close> of an entry without
    a destination, and goes no further.
\<close>

datatype rx_pc = Rx_idle | Rx_find u32 ether_addr | Rx_lock u32 ether_addr
  | Rx_check u32 ether_addr | Rx_create u32 ether_addr | Rx_unlock | Rx_fault

text \<open>
  The position of the stop thread in \<open>vxlan_stop\<close>: at \<open>del_timer_sync\<close>; in
  \<open>vxlan_flush\<close> at \<open>spin_lock_bh(&vxlan->hash_lock)\<close>; with the lock taken, at the loop
  over the chains; at \<open>spin_unlock_bh\<close>; returned.
\<close>

datatype stop_pc = Stop_timer | Stop_lock | Stop_flush | Stop_unlock | Stop_done

text \<open>The threads that can own the lock; the receive threads are numbered.\<close>

datatype owner = Stop_thread | Rx_thread nat

text \<open>
  The state of the system: the device, the owner of \<open>hash_lock\<close> if it is taken, the
  position of the stop thread and the position of every receive thread.
\<close>

record sys =
  sys_dev :: vxlan_dev
  sys_lock :: "owner option"
  sys_stop :: stop_pc
  sys_rx :: "nat \<Rightarrow> rx_pc"

text \<open>
  \<open>vxlan_step Kb s s'\<close>: some thread takes its next step from \<open>s\<close>, which gives \<open>s'\<close>. A
  thread takes the lock only when it is free. The kernel state \<open>K\<close> of a step (the clock,
  the outcome of its allocations) is arbitrary but for the hash function, which is that
  of \<open>Kb\<close> at every step (\<open>vxlan_salt\<close> is set once, when the module is loaded).

  The lookup and the branch for a found entry are one step: they write fields of an entry
  and never link or unlink one. The loop of \<open>vxlan_flush\<close> is one step: it runs with the
  lock taken, and the only other step that links or unlinks an entry, \<open>rx_create\<close>, is
  taken with the lock too.

  No step sets or clears the running bit. The device framework does that (it clears the
  bit before it calls \<open>ndo_stop\<close>, and sets it when the device is opened), and so the
  steps describe the device from the call of \<open>vxlan_stop\<close> until it is opened again. The
  netlink operations on the table (\<open>vxlan_fdb_add\<close>, \<open>vxlan_fdb_delete\<close>) are no steps
  either, nor is the ageing timer, which unlinks entries only and which the first step of
  the stop deletes: the system is the receive path and the stop.
\<close>

inductive vxlan_step :: "kernel \<Rightarrow> sys \<Rightarrow> sys \<Rightarrow> bool" for Kb :: kernel where
  rx_arrive:
    "sys_rx s t = Rx_idle \<Longrightarrow>
     vxlan_step Kb s (s\<lparr>sys_rx := (sys_rx s)(t := Rx_find src_ip src_mac)\<rparr>)"
| rx_find_miss:
    "sys_rx s t = Rx_find src_ip src_mac \<Longrightarrow> eth_hash K = eth_hash Kb \<Longrightarrow>
     vxlan_find_mac K (sys_dev s) src_mac = (None, v) \<Longrightarrow>
     vxlan_step Kb s (s\<lparr>sys_dev := v, sys_rx := (sys_rx s)(t := Rx_lock src_ip src_mac)\<rparr>)"
| rx_find_hit:
    "sys_rx s t = Rx_find src_ip src_mac \<Longrightarrow> eth_hash K = eth_hash Kb \<Longrightarrow>
     vxlan_find_mac K (sys_dev s) src_mac = (Some f, v) \<Longrightarrow>
     vxlan_snoop_found K v f src_ip = Some (dropped, v') \<Longrightarrow>
     vxlan_step Kb s (s\<lparr>sys_dev := v', sys_rx := (sys_rx s)(t := Rx_idle)\<rparr>)"
| rx_find_fault:
    "sys_rx s t = Rx_find src_ip src_mac \<Longrightarrow> eth_hash K = eth_hash Kb \<Longrightarrow>
     vxlan_find_mac K (sys_dev s) src_mac = (Some f, v) \<Longrightarrow>
     vxlan_snoop_found K v f src_ip = None \<Longrightarrow>
     vxlan_step Kb s (s\<lparr>sys_dev := v, sys_rx := (sys_rx s)(t := Rx_fault)\<rparr>)"
| rx_lock:
    "sys_rx s t = Rx_lock src_ip src_mac \<Longrightarrow> sys_lock s = None \<Longrightarrow>
     vxlan_step Kb s (s\<lparr>sys_lock := Some (Rx_thread t),
                        sys_rx := (sys_rx s)(t := Rx_check src_ip src_mac)\<rparr>)"
| rx_check:
    "sys_rx s t = Rx_check src_ip src_mac \<Longrightarrow>
     vxlan_step Kb s (s\<lparr>sys_rx := (sys_rx s)
        (t := (if netif_running (sys_dev s) then Rx_create src_ip src_mac else Rx_unlock))\<rparr>)"
| rx_create:
    "sys_rx s t = Rx_create src_ip src_mac \<Longrightarrow> eth_hash K = eth_hash Kb \<Longrightarrow>
     vxlan_step Kb s (s\<lparr>sys_dev := vxlan_snoop_learn K (sys_dev s) src_ip src_mac,
                        sys_rx := (sys_rx s)(t := Rx_unlock)\<rparr>)"
| rx_unlock:
    "sys_rx s t = Rx_unlock \<Longrightarrow>
     vxlan_step Kb s (s\<lparr>sys_lock := None, sys_rx := (sys_rx s)(t := Rx_idle)\<rparr>)"
| stop_timer:
    "sys_stop s = Stop_timer \<Longrightarrow>
     vxlan_step Kb s (s\<lparr>sys_dev := (sys_dev s)\<lparr>age_timer := None\<rparr>, sys_stop := Stop_lock\<rparr>)"
| stop_lock:
    "sys_stop s = Stop_lock \<Longrightarrow> sys_lock s = None \<Longrightarrow>
     vxlan_step Kb s (s\<lparr>sys_lock := Some Stop_thread, sys_stop := Stop_flush\<rparr>)"
| stop_flush:
    "sys_stop s = Stop_flush \<Longrightarrow>
     vxlan_step Kb s (s\<lparr>sys_dev := vxlan_flush (sys_dev s), sys_stop := Stop_unlock\<rparr>)"
| stop_unlock:
    "sys_stop s = Stop_unlock \<Longrightarrow>
     vxlan_step Kb s (s\<lparr>sys_lock := None, sys_stop := Stop_done\<rparr>)"

text \<open>
  The discipline of the lock: a receive thread is between its \<open>spin_lock\<close> and its
  \<open>spin_unlock\<close> exactly when it owns the lock, and so is the stop thread. It holds when
  the lock is free and no thread is between the two, and every step keeps it, whatever
  the running bit is (lemmas \<open>sys_wf_idle\<close>, \<open>sys_wf_step\<close>, \<open>sys_wf_dev\<close>).
\<close>

fun rx_critical :: "rx_pc \<Rightarrow> bool" where
  "rx_critical (Rx_check src_ip src_mac) = True"
| "rx_critical (Rx_create src_ip src_mac) = True"
| "rx_critical Rx_unlock = True"
| "rx_critical pc = False"

definition sys_wf :: "sys \<Rightarrow> bool" where
  "sys_wf s =
     ((\<forall>t. rx_critical (sys_rx s t) \<longleftrightarrow> sys_lock s = Some (Rx_thread t)) \<and>
      ((sys_stop s = Stop_flush \<or> sys_stop s = Stop_unlock) \<longleftrightarrow> sys_lock s = Some Stop_thread))"


section \<open>Properties of a forwarding table\<close>

text \<open>
  \<open>fdb_remotes_nonempty\<close>: every entry has a destination. \<open>fdb_hashed\<close>: every entry is
  on the chain of its MAC. \<open>fdb_distinct\<close>: a chain holds no two entries with the same
  MAC. \<open>vxlan_fdb_create\<close> keeps the last two: it looks the MAC up before it adds an
  entry, and adds it to the chain of the MAC.
\<close>

definition fdb_remotes_nonempty :: "vxlan_dev \<Rightarrow> bool" where
  "fdb_remotes_nonempty vxlan = (\<forall>h. \<forall>f \<in> set (fdb_head vxlan h). remotes f \<noteq> [])"

definition fdb_hashed :: "kernel \<Rightarrow> vxlan_dev \<Rightarrow> bool" where
  "fdb_hashed K vxlan = (\<forall>h. \<forall>f \<in> set (fdb_head vxlan h). eth_hash K (eth_addr f) = h)"

definition fdb_distinct :: "vxlan_dev \<Rightarrow> bool" where
  "fdb_distinct vxlan = (\<forall>h. distinct (map eth_addr (fdb_head vxlan h)))"

text \<open>\<open>fdb_all_zero\<close>: every entry of the table has the all-zero MAC.\<close>

definition fdb_all_zero :: "vxlan_dev \<Rightarrow> bool" where
  "fdb_all_zero vxlan = (\<forall>h. \<forall>f \<in> set (fdb_head vxlan h). eth_addr f = all_zeros_mac)"

text \<open>
  The invariant of the system once the running bit is clear: the lock discipline holds,
  the bit is clear, no receive thread is at the call of \<open>vxlan_fdb_create\<close> once the
  stop thread has taken the lock, and every entry has the all-zero MAC once the flush is
  done.
\<close>

definition stop_inv :: "sys \<Rightarrow> bool" where
  "stop_inv s =
     (sys_wf s \<and> \<not> netif_running (sys_dev s) \<and>
      (sys_stop s = Stop_flush \<or> sys_stop s = Stop_unlock \<or> sys_stop s = Stop_done \<longrightarrow>
         (\<forall>t src_ip src_mac. sys_rx s t \<noteq> Rx_create src_ip src_mac)) \<and>
      (sys_stop s = Stop_unlock \<or> sys_stop s = Stop_done \<longrightarrow> fdb_all_zero (sys_dev s)))"

text \<open>
  The ageing rule in the words of the specification, over the integers: an entry has
  expired at time \<open>jiffies\<close> under the threshold \<open>age\<close> (in seconds, \<open>HZ\<close> ticks each) when
  its state is not PERMANENT and its \<open>used\<close> stamp is at or before the time minus the
  threshold.
\<close>

definition spec_expired :: "kernel \<Rightarrow> ulong \<Rightarrow> vxlan_fdb \<Rightarrow> bool" where
  "spec_expired K age f =
     (state f AND NUD_PERMANENT = 0 \<and>
      int (unat (used f)) \<le> int (unat (jiffies K)) - int (unat age * unat (HZ K)))"


section \<open>Concrete inputs\<close>

text \<open>
  A received packet, from the UDP header on, whose VXLAN header has the flags word
  0x08000000 and the VNI word 0x00000a01 (VNI 10, low byte 1).
\<close>

definition bad_vni_skb :: sk_buff where
  "bad_vni_skb = \<lparr>data = [0x12, 0xb5, 0x12, 0xb5, 0, 0x10, 0, 0,
                           0x08, 0, 0, 0,  0, 0, 0x0a, 0x01], protocol = 0x0800\<rparr>"

text \<open>
  An IP layer whose hash is 0x80000000 on every frame and whose routes are neither
  local nor through the device itself; the inner TOS byte is 0xb8 (DSCP 46, not ECT).
  A device with VNI 10 and the default group 239.1.1.1, and two frames with the same
  MAC addresses and protocol.
\<close>

definition xe0 :: xmit_env where
  "xe0 = \<lparr>xe_jhash = (\<lambda>bs iv. 0x80000000), xe_dsfield = 0xb8,
           xe_ecn_encap = (\<lambda>t. INET_ECN_encapsulate t 0xb8),
           xe_route = (\<lambda>oif dst src t. Some \<lparr>rt_dev_is_self = False, rt_local = False,
                         rt_bcast_mcast = False, rt_hoplimit = 64\<rparr>),
           xe_find_vni = (\<lambda>vni port. False)\<rparr>"

definition dev0 :: vxlan_dev where
  "dev0 = \<lparr>default_dst = mk_rdst 0xEF010101 0 10 0, saddr = 0x0A000001, dst_port = 4789,
            port_min = 32768, port_max = 61000, tos = 0, ttl = 0, vflags = VXLAN_F_LEARN,
            age_interval = 300, age_timer = None, addrcnt = 0, addrmax = 0,
            fdb_head = (\<lambda>h. []), netif_running = True\<rparr>"

definition frame0 :: sk_buff where
  "frame0 = \<lparr>data = [0xbb, 0xbb, 0xbb, 0xbb, 0xbb, 0x02, 0xaa, 0xaa, 0xaa, 0xaa, 0xaa, 0x01,
                      0x08, 0x00, 0x45, 0xb8], protocol = 0x0800\<rparr>"

definition rdst0 :: vxlan_rdst where
  "rdst0 = mk_rdst 0x0A000005 0 10 0"

definition frame1 :: sk_buff where
  "frame1 = \<lparr>data = [0xbb, 0xbb, 0xbb, 0xbb, 0xbb, 0x02, 0xaa, 0xaa, 0xaa, 0xaa, 0xaa, 0x01,
                      0x08, 0x00, 0x45, 0x00, 0x00, 0x54], protocol = 0x0800\<rparr>"

text \<open>
  A kernel whose hash of a MAC is its last octet, and a device whose table holds a
  unicast entry (00:16:3e:dd:dd:04 to 10.0.0.8) and a multicast entry
  (01:00:5e:00:00:01 to 239.1.1.1).
\<close>

definition K0 :: kernel where
  "K0 = \<lparr>eth_hash = (\<lambda>m. case m of EtherAddr a0 a1 a2 a3 a4 a5 \<Rightarrow> a5), jiffies = 1000000,
          HZ = 1000, kmalloc_fdb = True, kmalloc_rdst = True\<rparr>"

definition mac_uc :: ether_addr where
  "mac_uc = EtherAddr 0x00 0x16 0x3e 0xdd 0xdd 0x04"

definition mac_mc :: ether_addr where
  "mac_mc = EtherAddr 0x01 0x00 0x5e 0x00 0x00 0x01"

definition mac_mc2 :: ether_addr where
  "mac_mc2 = EtherAddr 0x01 0x00 0x5e 0x00 0x00 0x02"

definition fdb_uc :: vxlan_fdb where
  "fdb_uc = \<lparr>updated = 5000, used = 5000, remotes = [mk_rdst 0x0A000008 4789 10 0],
              state = NUD_REACHABLE, flags = NTF_SELF, eth_addr = mac_uc\<rparr>"

definition fdb_mc :: vxlan_fdb where
  "fdb_mc = \<lparr>updated = 5000, used = 5000, remotes = [mk_rdst 0xEF010101 4789 10 0],
              state = NUD_PERMANENT, flags = NTF_SELF, eth_addr = mac_mc\<rparr>"

definition mac_new :: ether_addr where
  "mac_new = EtherAddr 0x00 0x16 0x3e 0xbb 0xbb 0x02"

definition fdb_zero :: vxlan_fdb where
  "fdb_zero = \<lparr>updated = 5000, used = 5000, remotes = [mk_rdst 0xEF010101 4789 10 0],
                state = NUD_REACHABLE OR NUD_PERMANENT, flags = NTF_SELF,
                eth_addr = all_zeros_mac\<rparr>"

definition dev1 :: vxlan_dev where
  "dev1 = dev0\<lparr>addrcnt := 3,
            fdb_head := (\<lambda>h. [])(4 := [fdb_uc], 1 := [fdb_mc], 0 := [fdb_zero])\<rparr>"

text \<open>The same device when it is not running.\<close>

definition dev_down :: vxlan_dev where
  "dev_down = dev1\<lparr>netif_running := False\<rparr>"


text \<open>
  The device \<open>dev_down\<close> at the call of \<open>vxlan_stop\<close>, while receive thread 0 is in
  \<open>vxlan_snoop\<close> with a packet from \<open>mac_new\<close>: the thread owns the lock and has passed
  the test of the running bit, which was set when it tested it. The other receive threads
  are outside.
\<close>

definition sys0 :: sys where
  "sys0 = \<lparr>sys_dev = dev_down, sys_lock = Some (Rx_thread 0), sys_stop = Stop_timer,
           sys_rx = (\<lambda>t. Rx_idle)(0 := Rx_create 0x0A000005 mac_new)\<rparr>"

text \<open>
  The same with the lock free: thread 0 is at the call of \<open>vxlan_fdb_create\<close> without
  owning the lock, which the lock discipline excludes.
\<close>

definition sys_unlocked :: sys where
  "sys_unlocked = sys0\<lparr>sys_lock := None\<rparr>"


text \<open>
  The device \<open>dev1\<close> with one more entry, last used 705000 ticks after boot; its age
  interval is 300 s, so at time 1000000 with 1000 ticks a second the unicast entry of
  \<open>dev1\<close> (last used at 5000) has expired and this one expires at 1005000.
\<close>

definition fdb_fresh :: vxlan_fdb where
  "fdb_fresh = \<lparr>updated = 705000, used = 705000, remotes = [mk_rdst 0x0A000005 4789 10 0],
                 state = NUD_REACHABLE, flags = NTF_SELF, eth_addr = mac_new\<rparr>"

definition dev_age :: vxlan_dev where
  "dev_age = dev1\<lparr>addrcnt := 4, fdb_head := (fdb_head dev1)(2 := [fdb_fresh])\<rparr>"

section \<open>Auxiliary lemmas on machine words\<close>

lemma unat_ucast_small:
  fixes w :: "'a::len word"
  assumes "unat w < 2 ^ LENGTH('b::len)"
  shows "unat (ucast w :: 'b word) = unat w"
  using assms by (simp add: unsigned_ucast_eq take_bit_nat_eq_self)

lemma unat_ucast_16_32: "unat (ucast (w :: u16) :: u32) = unat w"
  using unsigned_less [of w, where 'a=nat] by (intro unat_ucast_small) simp

lemma unat_ucast_16_64: "unat (ucast (w :: u16) :: u64) = unat w"
  using unsigned_less [of w, where 'a=nat] by (intro unat_ucast_small) simp

lemma unat_ucast_32_64: "unat (ucast (w :: u32) :: u64) = unat w"
  using unsigned_less [of w, where 'a=nat] by (intro unat_ucast_small) simp

lemma unat_range:
  fixes pmin pmax :: u16
  assumes "pmin \<le> pmax"
  shows "unat (((ucast pmax :: u32) - ucast pmin) + 1) = unat pmax - unat pmin + 1"
proof -
  have le: "unat pmin \<le> unat pmax" using assms by (simp add: word_le_nat_alt)
  have a: "unat (ucast pmax :: u32) = unat pmax" "unat (ucast pmin :: u32) = unat pmin"
    by (simp_all add: unat_ucast_16_32)
  have b: "unat ((ucast pmax :: u32) - ucast pmin) = unat pmax - unat pmin"
    using le a by (simp add: unat_sub word_le_nat_alt)
  have lt: "unat pmax < 2 ^ 16" using unsigned_less [of pmax] by simp
  have "unat ((ucast pmax :: u32) - ucast pmin) + unat (1 :: u32) < 2 ^ 32"
    using b lt by simp
  then have "unat (((ucast pmax :: u32) - ucast pmin) + 1) = unat ((ucast pmax :: u32) - ucast pmin) + 1"
    by (simp add: unat_add_lem [THEN iffD1])
  with b show ?thesis by simp
qed

lemma scaled_hash_less:
  fixes h r :: nat
  assumes "h < 2 ^ 32"
  shows "h * r div 2 ^ 32 < r \<or> r = 0"
proof (cases "r = 0")
  case False
  have "h * r < 2 ^ 32 * r" using assms False by simp
  then have "h * r div 2 ^ 32 < r"
    by (simp add: less_mult_imp_div_less mult.commute)
  then show ?thesis ..
qed simp

lemma unat_src_port:
  fixes pmin pmax :: u16
  assumes "pmin \<le> pmax"
  shows "unat (vxlan_src_port jhash pmin pmax skb) =
     unat pmin + unat (jhash (take 12 (data skb)) (ucast (protocol skb))) * (unat pmax - unat pmin + 1) div 2 ^ 32"
proof -
  define hash where "hash = jhash (take 12 (data skb)) (ucast (protocol skb))"
  define range :: u32 where "range = ((ucast pmax :: u32) - ucast pmin) + 1"
  define r where "r = unat pmax - unat pmin + 1"
  have le: "unat pmin \<le> unat pmax" using assms by (simp add: word_le_nat_alt)
  have lt: "unat pmax < 2 ^ 16" using unsigned_less [of pmax] by simp
  have hlt: "unat hash < 2 ^ 32" using unsigned_less [of hash] by simp
  have r: "unat range = r" unfolding range_def r_def by (rule unat_range [OF assms])
  have rle: "r \<le> 2 ^ 16" using lt le by (simp add: r_def)
  have uh: "unat (ucast hash :: u64) = unat hash" by (simp add: unat_ucast_32_64)
  have ur: "unat (ucast range :: u64) = r" using r by (simp add: unat_ucast_32_64)
  have "unat hash * r < 2 ^ 32 * 2 ^ 16"
    by (rule mult_less_le_imp_less) (use hlt rle in \<open>simp_all add: r_def\<close>)
  then have plt: "unat hash * r < 2 ^ 64" by simp
  have prod: "unat ((ucast hash :: u64) * ucast range) = unat hash * r"
    using plt uh ur by (simp add: unat_mult_lem [THEN iffD1])
  have q: "unat (drop_bit 32 ((ucast hash :: u64) * ucast range)) = unat hash * r div 2 ^ 32"
    by (simp only: unat_drop_bit_eq prod) (simp add: drop_bit_eq_div)
  have qlt: "unat hash * r div 2 ^ 32 < r"
    using scaled_hash_less [OF hlt, of r] by (simp add: r_def)
  have um: "unat (ucast pmin :: u64) = unat pmin" by (simp add: unat_ucast_16_64)
  have slt: "unat hash * r div 2 ^ 32 + unat pmin \<le> unat pmax"
    using qlt le by (simp add: r_def)
  have sum: "unat (drop_bit 32 ((ucast hash :: u64) * ucast range) + ucast pmin)
      = unat hash * r div 2 ^ 32 + unat pmin"
    using q um slt lt by (simp add: unat_add_lem [THEN iffD1])
  have "unat (ucast (drop_bit 32 ((ucast hash :: u64) * ucast range) + ucast pmin) :: u16)
      = unat hash * r div 2 ^ 32 + unat pmin"
    using sum slt lt by (intro unat_ucast_small [THEN trans]) simp_all
  then show ?thesis
    by (simp add: vxlan_src_port_def Let_def ETH_ALEN_def hash_def range_def r_def add.commute)
qed

lemma src_port0: "vxlan_src_port (xe_jhash xe0) 32768 61000 frame0 = 46884"
  by (simp add: vxlan_src_port_def xe0_def Let_def)

section \<open>Auxiliary lemmas on the forwarding table\<close>

lemma find_mac_raw_eth_addr:
  "vxlan_find_mac_raw K vxlan mac = Some f \<Longrightarrow> eth_addr f = mac"
  by (auto simp: vxlan_find_mac_raw_def find_Some_iff)

lemma map_eth_addr_hlist_store [simp]:
  "map eth_addr (hlist_store f gs) = map eth_addr gs"
  by (induction gs) auto

lemma find_hlist_store:
  "find (\<lambda>g. eth_addr g = m) (hlist_store f gs) =
     (if eth_addr f = m then map_option (\<lambda>_. f) (find (\<lambda>g. eth_addr g = m) gs)
      else find (\<lambda>g. eth_addr g = m) gs)"
  by (induction gs) auto

lemma find_mac_raw_fdb_store:
  "vxlan_find_mac_raw K (fdb_store K vxlan f) m =
     (if eth_addr f = m then map_option (\<lambda>_. f) (vxlan_find_mac_raw K vxlan m)
      else vxlan_find_mac_raw K vxlan m)"
  by (auto simp: vxlan_find_mac_raw_def fdb_store_def vxlan_fdb_head_def find_hlist_store)

lemma fdb_store_simps [simp]:
  "addrcnt (fdb_store K vxlan f) = addrcnt vxlan"
  "addrmax (fdb_store K vxlan f) = addrmax vxlan"
  "netif_running (fdb_store K vxlan f) = netif_running vxlan"
  "dst_port (fdb_store K vxlan f) = dst_port vxlan"
  "default_dst (fdb_store K vxlan f) = default_dst vxlan"
  "age_timer (fdb_store K vxlan f) = age_timer vxlan"
  by (simp_all add: fdb_store_def)

lemma map_eth_addr_fdb_store [simp]:
  "map eth_addr (fdb_head (fdb_store K vxlan f) h) = map eth_addr (fdb_head vxlan h)"
  by (simp add: fdb_store_def vxlan_fdb_head_def)

lemma set_state_flags_simps [simp]:
  "eth_addr (fdb_set_state_flags K f st ndm) = eth_addr f"
  "remotes (fdb_set_state_flags K f st ndm) = remotes f"
  "used (fdb_set_state_flags K f st ndm) = used f"
  "state (fdb_set_state_flags K f st ndm) = st"
  "flags (fdb_set_state_flags K f st ndm) = ndm"
  by (auto simp: fdb_set_state_flags_def Let_def)

lemma set_state_flags_kmalloc [simp]:
  "fdb_set_state_flags (K\<lparr>kmalloc_fdb := a, kmalloc_rdst := b\<rparr>) f st ndm = fdb_set_state_flags K f st ndm"
  by (simp add: fdb_set_state_flags_def)

lemma fdb_store_kmalloc [simp]:
  "fdb_store (K\<lparr>kmalloc_fdb := a, kmalloc_rdst := b\<rparr>) vxlan f = fdb_store K vxlan f"
  by (simp add: fdb_store_def vxlan_fdb_head_def)

lemma find_mac_raw_kmalloc [simp]:
  "vxlan_find_mac_raw (K\<lparr>kmalloc_fdb := a, kmalloc_rdst := b\<rparr>) vxlan m = vxlan_find_mac_raw K vxlan m"
  by (simp add: vxlan_find_mac_raw_def vxlan_fdb_head_def)

lemma find_rdst_None_iff:
  "vxlan_fdb_find_rdst f ip port vni ifindex = None \<longleftrightarrow> mk_rdst ip port vni ifindex \<notin> set (remotes f)"
proof -
  have "(remote_ip rd = ip \<and> remote_port rd = port \<and> remote_vni rd = vni \<and> remote_ifindex rd = ifindex)
     \<longleftrightarrow> rd = mk_rdst ip port vni ifindex" for rd :: vxlan_rdst
    by (cases rd) (auto simp: mk_rdst_def)
  then show ?thesis
    by (auto simp: vxlan_fdb_find_rdst_def find_None_iff)
qed

lemma replace_single:
  assumes "remotes f = [d]"
  shows "snd (vxlan_fdb_replace f ip port vni ifindex) = f\<lparr>remotes := [mk_rdst ip port vni ifindex]\<rparr>"
proof (cases "vxlan_fdb_find_rdst f ip port vni ifindex")
  case None
  then show ?thesis using assms by (simp add: vxlan_fdb_replace_def)
next
  case (Some rd)
  then have "mk_rdst ip port vni ifindex \<in> set (remotes f)"
    using find_rdst_None_iff [of f ip port vni ifindex] by simp
  then have "remotes f = [mk_rdst ip port vni ifindex]" using assms by simp
  then have "f\<lparr>remotes := [mk_rdst ip port vni ifindex]\<rparr> = f" by (cases f) simp
  then show ?thesis using Some by (simp add: vxlan_fdb_replace_def)
qed

lemma create_existing_unicast_replace:
  assumes f: "vxlan_find_mac_raw K vxlan mac = Some f"
    and excl: "nlm AND NLM_F_EXCL = 0" and rep: "nlm AND NLM_F_REPLACE \<noteq> 0"
    and uc: "\<not> is_multicast_ether_addr mac" "\<not> is_zero_ether_addr mac"
    and single: "remotes f = [d]"
  shows "vxlan_fdb_create (K\<lparr>kmalloc_fdb := a, kmalloc_rdst := b\<rparr>) vxlan mac ip st nlm port vni ifindex ndm
       = (Inr (), fdb_store K vxlan
                    ((fdb_set_state_flags K f st ndm)\<lparr>remotes := [mk_rdst ip port vni ifindex]\<rparr>))"
proof -
  have m: "eth_addr f = mac" using f by (rule find_mac_raw_eth_addr)
  have "remotes (fdb_set_state_flags K f st ndm) = [d]" using single by simp
  from replace_single [OF this] show ?thesis
    using f excl rep uc m by (simp add: vxlan_fdb_create_def Let_def)
qed

lemma create_existing_multicast_replace:
  assumes f: "vxlan_find_mac_raw K vxlan mac = Some f"
    and excl: "nlm AND NLM_F_EXCL = 0" and rep: "nlm AND NLM_F_REPLACE \<noteq> 0"
    and mc: "is_multicast_ether_addr mac \<or> is_zero_ether_addr mac"
  shows "vxlan_fdb_create K vxlan mac ip st nlm port vni ifindex ndm
      = (Inl EOPNOTSUPP, fdb_store K vxlan (fdb_set_state_flags K f st ndm))"
proof -
  have m: "eth_addr f = mac" using f by (rule find_mac_raw_eth_addr)
  show ?thesis using f excl rep mc m by (auto simp: vxlan_fdb_create_def Let_def)
qed

lemma create_new_multicast_replace:
  assumes f: "vxlan_find_mac_raw K vxlan mac = None"
    and cr: "nlm AND NLM_F_CREATE \<noteq> 0" and rep: "nlm AND NLM_F_REPLACE \<noteq> 0"
    and room: "addrmax vxlan = 0 \<or> addrcnt vxlan < addrmax vxlan"
    and mc: "is_multicast_ether_addr mac \<or> is_zero_ether_addr mac"
  shows "vxlan_fdb_create K vxlan mac ip st nlm port vni ifindex ndm = (Inl EOPNOTSUPP, vxlan)"
  using assms by (auto simp: vxlan_fdb_create_def Let_def)

lemma create_existing_append:
  assumes f: "vxlan_find_mac_raw K vxlan mac = Some f"
    and fl: "nlm AND NLM_F_APPEND \<noteq> 0" "nlm AND NLM_F_EXCL = 0" "nlm AND NLM_F_REPLACE = 0"
  shows "vxlan_fdb_create K vxlan mac ip st nlm port vni ifindex ndm =
     (if is_multicast_ether_addr mac \<or> is_zero_ether_addr mac then
        if mk_rdst ip port vni ifindex \<in> set (remotes f)
        then (Inr (), fdb_store K vxlan (fdb_set_state_flags K f st ndm))
        else if kmalloc_rdst K
          then (Inr (), fdb_store K vxlan
                  ((fdb_set_state_flags K f st ndm)\<lparr>remotes := remotes f @ [mk_rdst ip port vni ifindex]\<rparr>))
          else (Inl ENOBUFS, fdb_store K vxlan (fdb_set_state_flags K f st ndm))
      else (Inr (), fdb_store K vxlan (fdb_set_state_flags K f st ndm)))"
proof -
  have m: "eth_addr f = mac" using f by (rule find_mac_raw_eth_addr)
  have n: "vxlan_fdb_find_rdst (fdb_set_state_flags K f st ndm) ip port vni ifindex = None
      \<longleftrightarrow> mk_rdst ip port vni ifindex \<notin> set (remotes f)"
    by (simp add: find_rdst_None_iff)
  show ?thesis
  proof (cases "vxlan_fdb_find_rdst (fdb_set_state_flags K f st ndm) ip port vni ifindex")
    case None
    then show ?thesis
      using f fl m n by (simp add: vxlan_fdb_create_def Let_def vxlan_fdb_append_def)
  next
    case (Some rd)
    then show ?thesis
      using f fl m n by (simp add: vxlan_fdb_create_def Let_def vxlan_fdb_append_def)
  qed
qed

lemma find_dev1:
  "vxlan_find_mac_raw K0 dev1 mac_uc = Some fdb_uc"
  "vxlan_find_mac_raw K0 dev1 mac_mc = Some fdb_mc"
  "vxlan_find_mac_raw K0 dev1 mac_mc2 = None"
  "vxlan_find_mac_raw K0 dev1 mac_new = None"
  "vxlan_find_mac_raw K0 dev1 all_zeros_mac = Some fdb_zero"
  by (simp_all add: vxlan_find_mac_raw_def vxlan_fdb_head_def K0_def dev1_def mac_uc_def
        mac_mc_def mac_mc2_def mac_new_def all_zeros_mac_def fdb_uc_def fdb_mc_def fdb_zero_def)

lemma find_dev_down:
  "vxlan_find_mac_raw K0 dev_down mac_new = None"
  "vxlan_find_mac_raw K0 dev_down mac_uc = Some fdb_uc"
  using find_dev1 by (simp_all add: dev_down_def vxlan_find_mac_raw_def vxlan_fdb_head_def)

lemma hlist_store_twice:
  "eth_addr f = eth_addr g \<Longrightarrow> hlist_store f (hlist_store g gs) = hlist_store f gs"
  by (induction gs) auto

lemma fdb_store_twice:
  "eth_addr f = eth_addr g \<Longrightarrow> fdb_store K (fdb_store K vxlan g) f = fdb_store K vxlan f"
  by (simp add: fdb_store_def vxlan_fdb_head_def hlist_store_twice)

lemma find_mac_None:
  "vxlan_find_mac_raw K vxlan mac = None \<Longrightarrow> vxlan_find_mac K vxlan mac = (None, vxlan)"
  by (simp add: vxlan_find_mac_def)

lemma find_mac_Some:
  "vxlan_find_mac_raw K vxlan mac = Some f \<Longrightarrow>
     vxlan_find_mac K vxlan mac = (Some (f\<lparr>used := jiffies K\<rparr>), fdb_store K vxlan (f\<lparr>used := jiffies K\<rparr>))"
  by (simp add: vxlan_find_mac_def)

lemma snoop_flags:
  "(NLM_F_EXCL OR NLM_F_CREATE) AND NLM_F_CREATE \<noteq> 0"
  "(NLM_F_EXCL OR NLM_F_CREATE) AND NLM_F_REPLACE = 0"
  "(NLM_F_EXCL OR NLM_F_CREATE) AND NLM_F_APPEND = 0"
  by (simp_all add: NLM_F_EXCL_def NLM_F_CREATE_def NLM_F_REPLACE_def NLM_F_APPEND_def)

lemma create_learn:
  assumes "vxlan_find_mac_raw K vxlan mac = None"
  shows "vxlan_fdb_create K vxlan mac ip st (NLM_F_EXCL OR NLM_F_CREATE) port vni ifindex ndm =
     (if addrmax vxlan \<noteq> 0 \<and> addrmax vxlan \<le> addrcnt vxlan then (Inl ENOSPC, vxlan)
      else if \<not> kmalloc_fdb K then (Inl ENOMEM, vxlan)
      else (Inr (), vxlan\<lparr>addrcnt := addrcnt vxlan + 1,
              fdb_head := (fdb_head vxlan)
                (eth_hash K mac :=
                   \<lparr>updated = jiffies K, used = jiffies K,
                    remotes = (if kmalloc_rdst K then [mk_rdst ip port vni ifindex] else []),
                    state = st, flags = ndm, eth_addr = mac\<rparr> # fdb_head vxlan (eth_hash K mac))\<rparr>))"
  using assms snoop_flags
  by (simp add: vxlan_fdb_create_def Let_def vxlan_fdb_append_def vxlan_fdb_find_rdst_def
        vxlan_fdb_head_def)

section \<open>Auxiliary lemmas on ageing\<close>

lemma sint_sub_small:
  fixes a b :: ulong
  assumes "unat a < 2 ^ 63" "unat b < 2 ^ 63"
  shows "sint (a - b) = uint a - uint b"
proof -
  from assms have "int (unat a) < int (2 ^ 63)" "int (unat b) < int (2 ^ 63)"
    by (simp_all only: of_nat_less_iff)
  then have lt: "uint a < 2 ^ 63" "uint b < 2 ^ 63" by simp_all
  have "sint (a - b) = signed_take_bit 63 (uint (a - b))" by (simp add: sint_uint)
  also have "uint (a - b) = take_bit 64 (uint a - uint b)"
    by (simp add: uint_word_ariths take_bit_eq_mod)
  also have "signed_take_bit 63 (take_bit 64 (uint a - uint b)) = signed_take_bit 63 (uint a - uint b)"
    by (simp add: signed_take_bit_take_bit)
  also have "\<dots> = uint a - uint b"
  proof (rule signed_take_bit_int_eq_self)
    have "0 \<le> uint a" "0 \<le> uint b" by simp_all
    with lt show "- (2 ^ 63) \<le> uint a - uint b" "uint a - uint b < 2 ^ 63" by linarith+
  qed
  finally show ?thesis .
qed

lemma time_before_eq_small:
  assumes "unat a < 2 ^ 63" "unat b < 2 ^ 63"
  shows "time_before_eq a b \<longleftrightarrow> unat a \<le> unat b"
proof -
  have "sint (b - a) = uint b - uint a" using assms by (intro sint_sub_small)
  then have "time_before_eq a b \<longleftrightarrow> a \<le> b"
    by (simp add: time_before_eq_def word_le_def)
  then show ?thesis by (simp add: word_le_nat_alt)
qed

lemma time_before_small:
  assumes "unat a < 2 ^ 63" "unat b < 2 ^ 63"
  shows "time_before a b \<longleftrightarrow> unat a < unat b"
proof -
  have "sint (a - b) = uint a - uint b" using assms by (intro sint_sub_small)
  then have "time_before a b \<longleftrightarrow> a < b"
    by (simp add: time_before_def word_less_def)
  then show ?thesis by (simp add: word_less_nat_alt)
qed

lemma unat_timeout:
  fixes u age hz :: ulong
  assumes "unat u < 2 ^ 62" "unat age * unat hz < 2 ^ 62"
  shows "unat (u + age * hz) = unat u + unat age * unat hz"
proof -
  have m: "unat (age * hz) = unat age * unat hz"
    using assms(2) by (simp add: unat_mult_lem [THEN iffD1])
  have "unat u + unat (age * hz) < 2 ^ 64" using assms m by simp
  then show ?thesis using m by (simp add: unat_add_lem [THEN iffD1])
qed

lemma code_expired_iff:
  assumes "unat (jiffies K) < 2 ^ 62" "unat age * unat (HZ K) < 2 ^ 62" "unat (used f) < 2 ^ 62"
  shows "(state f AND NUD_PERMANENT = 0 \<and> time_before_eq (used f + age * HZ K) (jiffies K))
     \<longleftrightarrow> spec_expired K age f"
proof -
  have t: "unat (used f + age * HZ K) = unat (used f) + unat age * unat (HZ K)"
    using assms by (intro unat_timeout)
  have "time_before_eq (used f + age * HZ K) (jiffies K)
      \<longleftrightarrow> unat (used f) + unat age * unat (HZ K) \<le> unat (jiffies K)"
    using assms t by (subst time_before_eq_small) simp_all
  moreover have "unat (used f) + unat age * unat (HZ K) \<le> unat (jiffies K) \<longleftrightarrow>
      int (unat (used f)) \<le> int (unat (jiffies K)) - int (unat age * unat (HZ K))"
    by linarith
  ultimately show ?thesis unfolding spec_expired_def by blast
qed

lemma cleanup_chain_fst:
  assumes "unat (jiffies K) < 2 ^ 62" "unat age * unat (HZ K) < 2 ^ 62"
    and "\<forall>f\<in>set fs. unat (used f) < 2 ^ 62"
  shows "fst (vxlan_cleanup_chain K age fs cnt nt) = filter (\<lambda>f. \<not> spec_expired K age f) fs"
  using assms(3)
proof (induction fs arbitrary: cnt nt)
  case Nil
  then show ?case by simp
next
  case (Cons f fs)
  have e: "(state f AND NUD_PERMANENT = 0 \<and> time_before_eq (used f + age * HZ K) (jiffies K))
     \<longleftrightarrow> spec_expired K age f"
    using assms(1,2) Cons.prems by (intro code_expired_iff) simp_all
  have ih: "fst (vxlan_cleanup_chain K age fs c n) = filter (\<lambda>f. \<not> spec_expired K age f) fs" for c n
    using Cons by simp
  show ?case
  proof (cases "state f AND NUD_PERMANENT = 0")
    case True
    then show ?thesis using e ih by (auto simp: Let_def case_prod_unfold)
  next
    case False
    then have "\<not> spec_expired K age f" by (simp add: spec_expired_def)
    then show ?thesis using False ih by (auto simp: Let_def case_prod_unfold)
  qed
qed

lemma cleanup_chain_timer:
  assumes "unat (jiffies K) < 2 ^ 62" "unat age * unat (HZ K) < 2 ^ 62"
    and "\<forall>f\<in>set fs. unat (used f) < 2 ^ 62" and "unat nt < 2 ^ 63"
  shows "unat (snd (snd (vxlan_cleanup_chain K age fs cnt nt))) \<le> unat nt \<and>
     (\<forall>f\<in>set fs. \<not> spec_expired K age f \<and> state f AND NUD_PERMANENT = 0 \<longrightarrow>
         unat (snd (snd (vxlan_cleanup_chain K age fs cnt nt))) \<le> unat (used f) + unat age * unat (HZ K)) \<and>
     (snd (snd (vxlan_cleanup_chain K age fs cnt nt)) = nt \<or>
      (\<exists>f\<in>set fs. \<not> spec_expired K age f \<and> state f AND NUD_PERMANENT = 0 \<and>
         unat (snd (snd (vxlan_cleanup_chain K age fs cnt nt))) = unat (used f) + unat age * unat (HZ K)))"
  using assms(3,4)
proof (induction fs arbitrary: cnt nt)
  case Nil
  then show ?case by simp
next
  case (Cons f fs)
  let ?T = "unat age * unat (HZ K)"
  have e: "(state f AND NUD_PERMANENT = 0 \<and> time_before_eq (used f + age * HZ K) (jiffies K))
     \<longleftrightarrow> spec_expired K age f"
    using assms(1,2) Cons.prems by (intro code_expired_iff) simp_all
  have t: "unat (used f + age * HZ K) = unat (used f) + ?T"
    using assms(2) Cons.prems by (intro unat_timeout) simp_all
  have t63: "unat (used f + age * HZ K) < 2 ^ 63"
    using t assms(2) Cons.prems by simp
  have b: "\<forall>f\<in>set fs. unat (used f) < 2 ^ 62" using Cons.prems by simp
  show ?case
  proof (cases "state f AND NUD_PERMANENT = 0")
    case False
    then have ne: "\<not> spec_expired K age f" by (simp add: spec_expired_def)
    have c: "snd (snd (vxlan_cleanup_chain K age (f # fs) cnt nt)) = snd (snd (vxlan_cleanup_chain K age fs cnt nt))"
      using False by (simp add: case_prod_unfold)
    show ?thesis unfolding c using Cons.IH [OF b Cons.prems(2), of cnt] False by auto
  next
    case perm: True
    show ?thesis
    proof (cases "spec_expired K age f")
      case True
      then have c: "snd (snd (vxlan_cleanup_chain K age (f # fs) cnt nt))
          = snd (snd (vxlan_cleanup_chain K age fs (cnt - 1) nt))"
        using e perm by (simp add: Let_def)
      show ?thesis unfolding c using Cons.IH [OF b Cons.prems(2), of "cnt - 1"] True by auto
    next
      case False
      define nt1 where "nt1 = (if time_before (used f + age * HZ K) nt then used f + age * HZ K else nt)"
      have c: "snd (snd (vxlan_cleanup_chain K age (f # fs) cnt nt))
          = snd (snd (vxlan_cleanup_chain K age fs cnt nt1))"
        using e perm False by (simp add: Let_def nt1_def case_prod_unfold)
      have tb: "time_before (used f + age * HZ K) nt \<longleftrightarrow> unat (used f) + ?T < unat nt"
        using t63 Cons.prems(2) t by (subst time_before_small) simp_all
      have n1: "unat nt1 = min (unat (used f) + ?T) (unat nt)"
        using tb t by (auto simp: nt1_def)
      have n63: "unat nt1 < 2 ^ 63" using n1 Cons.prems(2) by simp
      have n1c: "nt1 = nt \<or> unat nt1 = unat (used f) + ?T"
        using tb t by (auto simp: nt1_def)
      note ih = Cons.IH [OF b n63, of cnt]
      show ?thesis unfolding c
      proof (intro conjI)
        show "unat (snd (snd (vxlan_cleanup_chain K age fs cnt nt1))) \<le> unat nt"
          using ih n1 by simp
        show "\<forall>g\<in>set (f # fs). \<not> spec_expired K age g \<and> state g AND NUD_PERMANENT = 0 \<longrightarrow>
            unat (snd (snd (vxlan_cleanup_chain K age fs cnt nt1))) \<le> unat (used g) + ?T"
          using ih n1 by auto
        show "snd (snd (vxlan_cleanup_chain K age fs cnt nt1)) = nt \<or>
            (\<exists>g\<in>set (f # fs). \<not> spec_expired K age g \<and> state g AND NUD_PERMANENT = 0 \<and>
               unat (snd (snd (vxlan_cleanup_chain K age fs cnt nt1))) = unat (used g) + ?T)"
          using ih n1c False perm by auto
      qed
    qed
  qed
qed


lemma set_fdb_chains: "set fdb_chains = UNIV"
proof -
  have "h \<in> set fdb_chains" for h :: u8
  proof -
    have lt: "unat h < 256" using unsigned_less [of h, where 'a=nat] by simp
    have "h \<in> of_nat ` {0..<256}"
      by (rule image_eqI [where x = "unat h"]) (use lt in simp_all)
    then show ?thesis by (simp add: fdb_chains_def FDB_HASH_SIZE_def)
  qed
  then show ?thesis by auto
qed

lemma distinct_fdb_chains: "distinct fdb_chains"
proof -
  have "inj_on (of_nat :: nat \<Rightarrow> u8) {0..<256}"
  proof (rule inj_onI)
    fix x y :: nat
    assume "x \<in> {0..<256}" "y \<in> {0..<256}" "(of_nat x :: u8) = of_nat y"
    then have "take_bit 8 x = take_bit 8 y" "x < 2 ^ 8" "y < 2 ^ 8"
      by (simp_all add: word_of_nat_eq_iff)
    then show "x = y" by (simp add: take_bit_nat_eq_self)
  qed
  then show ?thesis by (simp add: fdb_chains_def FDB_HASH_SIZE_def distinct_map)
qed

lemma cleanup_loop_fst:
  assumes "unat (jiffies K) < 2 ^ 62" "unat age * unat (HZ K) < 2 ^ 62"
    and "\<forall>h. \<forall>f\<in>set (heads h). unat (used f) < 2 ^ 62"
  shows "fst (vxlan_cleanup_loop K age hs heads cnt nt) h =
     (if h \<in> set hs then filter (\<lambda>f. \<not> spec_expired K age f) (heads h) else heads h)"
  using assms(3)
proof (induction hs arbitrary: heads cnt nt)
  case Nil
  then show ?case by simp
next
  case (Cons h0 hs)
  define c where "c = filter (\<lambda>f. \<not> spec_expired K age f) (heads h0)"
  have c: "fst (vxlan_cleanup_chain K age (heads h0) cnt nt) = c"
    unfolding c_def using assms(1,2) Cons.prems by (intro cleanup_chain_fst) simp_all
  have b: "\<forall>h. \<forall>f\<in>set ((heads(h0 := c)) h). unat (used f) < 2 ^ 62"
    using Cons.prems by (auto simp: c_def)
  obtain cnt' nt' where r: "vxlan_cleanup_chain K age (heads h0) cnt nt = (c, cnt', nt')"
    using c by (cases "vxlan_cleanup_chain K age (heads h0) cnt nt") auto
  have "fst (vxlan_cleanup_loop K age (h0 # hs) heads cnt nt) h
      = fst (vxlan_cleanup_loop K age hs (heads(h0 := c)) cnt' nt') h"
    by (simp add: r)
  also have "\<dots> = (if h \<in> set hs then filter (\<lambda>f. \<not> spec_expired K age f) ((heads(h0 := c)) h)
                    else (heads(h0 := c)) h)"
    by (rule Cons.IH [OF b])
  also have "\<dots> = (if h \<in> set (h0 # hs) then filter (\<lambda>f. \<not> spec_expired K age f) (heads h) else heads h)"
    by (simp add: c_def)
  finally show ?case .
qed

lemma cleanup_loop_timer:
  assumes "unat (jiffies K) < 2 ^ 62" "unat age * unat (HZ K) < 2 ^ 62"
    and "\<forall>h. \<forall>f\<in>set (heads h). unat (used f) < 2 ^ 62" and "unat nt < 2 ^ 63" and "distinct hs"
  shows "unat (snd (snd (vxlan_cleanup_loop K age hs heads cnt nt))) \<le> unat nt \<and>
     (\<forall>h\<in>set hs. \<forall>f\<in>set (heads h). \<not> spec_expired K age f \<and> state f AND NUD_PERMANENT = 0 \<longrightarrow>
         unat (snd (snd (vxlan_cleanup_loop K age hs heads cnt nt))) \<le> unat (used f) + unat age * unat (HZ K)) \<and>
     (snd (snd (vxlan_cleanup_loop K age hs heads cnt nt)) = nt \<or>
      (\<exists>h\<in>set hs. \<exists>f\<in>set (heads h). \<not> spec_expired K age f \<and> state f AND NUD_PERMANENT = 0 \<and>
         unat (snd (snd (vxlan_cleanup_loop K age hs heads cnt nt))) = unat (used f) + unat age * unat (HZ K)))"
  using assms(3,4,5)
proof (induction hs arbitrary: heads cnt nt)
  case Nil
  then show ?case by simp
next
  case (Cons h0 hs)
  let ?T = "unat age * unat (HZ K)"
  obtain c cnt' nt' where r: "vxlan_cleanup_chain K age (heads h0) cnt nt = (c, cnt', nt')"
    by (cases "vxlan_cleanup_chain K age (heads h0) cnt nt") auto
  have c: "c = filter (\<lambda>f. \<not> spec_expired K age f) (heads h0)"
    using cleanup_chain_fst [OF assms(1,2), of "heads h0" cnt nt] Cons.prems(1) r by simp
  have ch: "unat nt' \<le> unat nt \<and>
     (\<forall>f\<in>set (heads h0). \<not> spec_expired K age f \<and> state f AND NUD_PERMANENT = 0 \<longrightarrow>
         unat nt' \<le> unat (used f) + ?T) \<and>
     (nt' = nt \<or> (\<exists>f\<in>set (heads h0). \<not> spec_expired K age f \<and> state f AND NUD_PERMANENT = 0 \<and>
         unat nt' = unat (used f) + ?T))"
    using cleanup_chain_timer [OF assms(1,2), of "heads h0" nt cnt] Cons.prems(1,2) r by simp
  define heads' where "heads' = heads(h0 := c)"
  have b: "\<forall>h. \<forall>f\<in>set (heads' h). unat (used f) < 2 ^ 62"
    using Cons.prems(1) by (auto simp: c heads'_def)
  have n63: "unat nt' < 2 ^ 63" using ch Cons.prems(2) by simp
  have d: "distinct hs" "h0 \<notin> set hs" using Cons.prems(3) by simp_all
  have same: "heads' h = heads h" if "h \<in> set hs" for h
    using that d(2) by (auto simp: heads'_def)
  define res where "res = snd (snd (vxlan_cleanup_loop K age hs heads' cnt' nt'))"
  have l: "snd (snd (vxlan_cleanup_loop K age (h0 # hs) heads cnt nt)) = res"
    by (simp add: r res_def heads'_def)
  have ih: "unat res \<le> unat nt' \<and>
     (\<forall>h\<in>set hs. \<forall>f\<in>set (heads h). \<not> spec_expired K age f \<and> state f AND NUD_PERMANENT = 0 \<longrightarrow>
         unat res \<le> unat (used f) + ?T) \<and>
     (res = nt' \<or> (\<exists>h\<in>set hs. \<exists>f\<in>set (heads h). \<not> spec_expired K age f \<and> state f AND NUD_PERMANENT = 0 \<and>
         unat res = unat (used f) + ?T))"
    using Cons.IH [OF b n63 d(1), of cnt'] unfolding res_def [symmetric] by (simp add: same)
  show ?case unfolding l
  proof (intro conjI ballI impI)
    show "unat res \<le> unat nt" using ih ch by simp
  next
    fix h f
    assume h: "h \<in> set (h0 # hs)" and f: "f \<in> set (heads h)"
      and s: "\<not> spec_expired K age f \<and> state f AND NUD_PERMANENT = 0"
    show "unat res \<le> unat (used f) + ?T"
    proof (cases "h = h0")
      case True
      then have "unat nt' \<le> unat (used f) + ?T" using ch f s by blast
      then show ?thesis using ih by simp
    next
      case False
      then have "h \<in> set hs" using h by simp
      then show ?thesis using ih f s by blast
    qed
  next
    from ih have "res = nt' \<or> (\<exists>h\<in>set hs. \<exists>f\<in>set (heads h). \<not> spec_expired K age f \<and>
        state f AND NUD_PERMANENT = 0 \<and> unat res = unat (used f) + ?T)" by blast
    then show "res = nt \<or> (\<exists>h\<in>set (h0 # hs). \<exists>f\<in>set (heads h). \<not> spec_expired K age f \<and>
          state f AND NUD_PERMANENT = 0 \<and> unat res = unat (used f) + ?T)"
    proof
      assume e: "res = nt'"
      from ch have "nt' = nt \<or> (\<exists>f\<in>set (heads h0). \<not> spec_expired K age f \<and>
          state f AND NUD_PERMANENT = 0 \<and> unat nt' = unat (used f) + ?T)" by blast
      then show ?thesis
      proof
        assume "nt' = nt"
        then show ?thesis using e by simp
      next
        assume "\<exists>f\<in>set (heads h0). \<not> spec_expired K age f \<and>
          state f AND NUD_PERMANENT = 0 \<and> unat nt' = unat (used f) + ?T"
        then obtain f where "f \<in> set (heads h0)" "\<not> spec_expired K age f"
          "state f AND NUD_PERMANENT = 0" "unat res = unat (used f) + ?T"
          using e by blast
        then have "\<exists>h\<in>set (h0 # hs). \<exists>f\<in>set (heads h). \<not> spec_expired K age f \<and>
          state f AND NUD_PERMANENT = 0 \<and> unat res = unat (used f) + ?T"
          by (intro bexI [of _ h0] bexI [of _ f]) simp_all
        then show ?thesis ..
      qed
    next
      assume "\<exists>h\<in>set hs. \<exists>f\<in>set (heads h). \<not> spec_expired K age f \<and>
        state f AND NUD_PERMANENT = 0 \<and> unat res = unat (used f) + ?T"
      then obtain h f where "h \<in> set hs" "f \<in> set (heads h)" "\<not> spec_expired K age f"
          "state f AND NUD_PERMANENT = 0" "unat res = unat (used f) + ?T"
        by blast
      then have "\<exists>h\<in>set (h0 # hs). \<exists>f\<in>set (heads h). \<not> spec_expired K age f \<and>
          state f AND NUD_PERMANENT = 0 \<and> unat res = unat (used f) + ?T"
        by (intro bexI [of _ h] bexI [of _ f]) simp_all
      then show ?thesis ..
    qed
  qed
qed

lemma unat_rescan:
  fixes j hz :: ulong
  assumes "unat j < 2 ^ 62" "10 * unat hz < 2 ^ 62"
  shows "unat (j + 10 * hz) = unat j + 10 * unat hz"
proof -
  have "unat (10 :: ulong) * unat hz < 2 ^ 62" using assms(2) by simp
  from unat_timeout [OF assms(1) this] show ?thesis by simp
qed

lemma dev_age_chain:
  "fdb_head dev_age h =
     (if h = 2 then [fdb_fresh] else if h = 0 then [fdb_zero] else if h = 1 then [fdb_mc]
      else if h = 4 then [fdb_uc] else [])"
  by (simp add: dev_age_def dev1_def)

lemma dev_age_expired:
  "spec_expired K0 300 fdb_uc" "\<not> spec_expired K0 300 fdb_fresh"
  "\<not> spec_expired K0 300 fdb_mc" "\<not> spec_expired K0 300 fdb_zero"
  "state fdb_fresh AND NUD_PERMANENT = 0" "state fdb_mc AND NUD_PERMANENT \<noteq> 0"
  "state fdb_zero AND NUD_PERMANENT \<noteq> 0"
  by (simp_all add: spec_expired_def K0_def fdb_uc_def fdb_fresh_def fdb_mc_def fdb_zero_def
        NUD_PERMANENT_def NUD_REACHABLE_def)

section \<open>Auxiliary lemmas on shutdown\<close>

lemma is_zero_ether_addr_iff: "is_zero_ether_addr m \<longleftrightarrow> m = all_zeros_mac"
  by (cases m) (auto simp: all_zeros_mac_def or_eq_0_iff)

lemma set_hlist_store: "set (hlist_store f gs) \<subseteq> insert f (set gs)"
  by (induction gs) auto

lemma find_mac_raw_in_chain:
  "vxlan_find_mac_raw K vxlan mac = Some f \<Longrightarrow> f \<in> set (fdb_head vxlan (eth_hash K mac))"
  by (auto simp: vxlan_find_mac_raw_def vxlan_fdb_head_def find_Some_iff)

lemma fdb_store_remotes_nonempty:
  assumes "fdb_remotes_nonempty vxlan" "remotes f \<noteq> []"
  shows "fdb_remotes_nonempty (fdb_store K vxlan f)"
  unfolding fdb_remotes_nonempty_def
proof (intro allI ballI)
  fix h g
  assume g: "g \<in> set (fdb_head (fdb_store K vxlan f) h)"
  show "remotes g \<noteq> []"
  proof (cases "h = eth_hash K (eth_addr f)")
    case True
    then have "g \<in> insert f (set (fdb_head vxlan h))"
      using g set_hlist_store [of f "fdb_head vxlan h"]
      by (auto simp: fdb_store_def vxlan_fdb_head_def)
    then show ?thesis using assms by (auto simp: fdb_remotes_nonempty_def)
  next
    case False
    then have "g \<in> set (fdb_head vxlan h)" using g by (simp add: fdb_store_def)
    then show ?thesis using assms(1) by (auto simp: fdb_remotes_nonempty_def)
  qed
qed

lemma flush_chain_fst:
  "fst (vxlan_flush_chain fs cnt) = filter (\<lambda>f. is_zero_ether_addr (eth_addr f)) fs"
  by (induction fs arbitrary: cnt) (auto simp: case_prod_unfold)

lemma flush_loop_fst:
  "fst (vxlan_flush_loop hs heads cnt) h =
     (if h \<in> set hs then filter (\<lambda>f. is_zero_ether_addr (eth_addr f)) (heads h) else heads h)"
proof (induction hs arbitrary: heads cnt)
  case Nil
  then show ?case by simp
next
  case (Cons h0 hs)
  define c where "c = filter (\<lambda>f. is_zero_ether_addr (eth_addr f)) (heads h0)"
  obtain cnt' where r: "vxlan_flush_chain (heads h0) cnt = (c, cnt')"
    using flush_chain_fst [of "heads h0" cnt]
    by (cases "vxlan_flush_chain (heads h0) cnt") (auto simp: c_def)
  have "fst (vxlan_flush_loop (h0 # hs) heads cnt) h = fst (vxlan_flush_loop hs (heads(h0 := c)) cnt') h"
    by (simp add: r)
  also have "\<dots> = (if h \<in> set hs then filter (\<lambda>f. is_zero_ether_addr (eth_addr f)) ((heads(h0 := c)) h)
        else (heads(h0 := c)) h)"
    by (rule Cons.IH)
  also have "\<dots> = (if h \<in> set (h0 # hs) then filter (\<lambda>f. is_zero_ether_addr (eth_addr f)) (heads h)
        else heads h)"
    by (simp add: c_def)
  finally show ?case .
qed

lemma snoop_not_running_macs:
  assumes "\<not> netif_running vxlan" "vxlan_snoop K vxlan src_ip src_mac = Some (d, v')"
  shows "(\<forall>h. map eth_addr (fdb_head v' h) = map eth_addr (fdb_head vxlan h)) \<and>
         addrcnt v' = addrcnt vxlan \<and> \<not> netif_running v'"
proof (cases "vxlan_find_mac_raw K vxlan src_mac")
  case None
  then show ?thesis using assms by (simp add: vxlan_snoop_def find_mac_None)
next
  case (Some f)
  then show ?thesis using assms
    by (auto simp: vxlan_snoop_def find_mac_Some split: option.splits if_splits)
qed

lemma distinct_all_equal:
  "distinct xs \<Longrightarrow> \<forall>x\<in>set xs. x = z \<Longrightarrow> xs = [] \<or> xs = [z]"
  by (cases xs; cases "tl xs") auto

lemma dev1_wf: "fdb_hashed K0 dev1" "fdb_distinct dev1" "fdb_remotes_nonempty dev1"
  by (simp_all add: fdb_hashed_def fdb_distinct_def fdb_remotes_nonempty_def dev1_def K0_def
        fdb_uc_def fdb_mc_def fdb_zero_def mac_uc_def mac_mc_def all_zeros_mac_def)

section \<open>Auxiliary lemmas on the receive path and the stop\<close>

text \<open>
  The steps of a receive thread, taken one after the other with no other thread between
  them, are \<open>vxlan_snoop\<close>; those of the stop thread are \<open>vxlan_stop\<close>.
\<close>

lemma vxlan_snoop_steps:
  "vxlan_snoop K vxlan src_ip src_mac =
     (case vxlan_find_mac K vxlan src_mac of
        (Some f, v) \<Rightarrow> vxlan_snoop_found K v f src_ip
      | (None, v) \<Rightarrow>
          Some (False, if netif_running v then vxlan_snoop_learn K v src_ip src_mac else v))"
  by (auto simp: vxlan_snoop_def vxlan_snoop_found_def vxlan_snoop_learn_def
        split: prod.splits option.splits)

lemma vxlan_stop_steps: "vxlan_stop vxlan = vxlan_flush (vxlan\<lparr>age_timer := None\<rparr>)"
  by (simp add: vxlan_stop_def)

lemma sys_wf_rx: "sys_wf s \<Longrightarrow> rx_critical (sys_rx s t) \<longleftrightarrow> sys_lock s = Some (Rx_thread t)"
  unfolding sys_wf_def by blast

lemma sys_wf_stop:
  "sys_wf s \<Longrightarrow> (sys_stop s = Stop_flush \<or> sys_stop s = Stop_unlock) \<longleftrightarrow> sys_lock s = Some Stop_thread"
  unfolding sys_wf_def by blast

lemma sys_wf_same:
  assumes "sys_wf s" "sys_lock s' = sys_lock s" "sys_stop s' = sys_stop s"
    and "\<forall>t. rx_critical (sys_rx s' t) = rx_critical (sys_rx s t)"
  shows "sys_wf s'"
  using assms unfolding sys_wf_def by simp

lemma sys_wf_step:
  assumes "vxlan_step Kb s s'" "sys_wf s"
  shows "sys_wf s'"
  using assms
proof (induction rule: vxlan_step.induct)
  case (rx_arrive s t src_ip src_mac)
  show ?case by (rule sys_wf_same [OF rx_arrive.prems]) (use rx_arrive.hyps in simp_all)
next
  case (rx_find_miss s t src_ip src_mac K v)
  show ?case by (rule sys_wf_same [OF rx_find_miss.prems]) (use rx_find_miss.hyps in simp_all)
next
  case (rx_find_hit s t src_ip src_mac K f v dropped v')
  show ?case by (rule sys_wf_same [OF rx_find_hit.prems]) (use rx_find_hit.hyps in simp_all)
next
  case (rx_find_fault s t src_ip src_mac K f v)
  show ?case by (rule sys_wf_same [OF rx_find_fault.prems]) (use rx_find_fault.hyps in simp_all)
next
  case (rx_check s t src_ip src_mac)
  show ?case by (rule sys_wf_same [OF rx_check.prems]) (use rx_check.hyps in simp_all)
next
  case (rx_create s t src_ip src_mac K)
  show ?case by (rule sys_wf_same [OF rx_create.prems]) (use rx_create.hyps in simp_all)
next
  case (stop_timer s)
  have "sys_lock s \<noteq> Some Stop_thread"
    using sys_wf_stop [OF stop_timer.prems] stop_timer.hyps by simp
  moreover have "rx_critical (sys_rx s u) \<longleftrightarrow> sys_lock s = Some (Rx_thread u)" for u
    by (rule sys_wf_rx [OF stop_timer.prems])
  ultimately show ?case by (simp add: sys_wf_def)
next
  case (stop_flush s)
  have l: "sys_lock s = Some Stop_thread"
    using sys_wf_stop [OF stop_flush.prems] stop_flush.hyps by simp
  have "\<not> rx_critical (sys_rx s u)" for u
    using sys_wf_rx [OF stop_flush.prems, of u] l by simp
  then show ?case using l by (simp add: sys_wf_def)
next
  case (rx_lock s t src_ip src_mac)
  have n: "\<not> rx_critical (sys_rx s u)" for u
    using sys_wf_rx [OF rx_lock.prems, of u] rx_lock.hyps by simp
  have "sys_stop s \<noteq> Stop_flush" "sys_stop s \<noteq> Stop_unlock"
    using sys_wf_stop [OF rx_lock.prems] rx_lock.hyps by auto
  then show ?case using n by (simp add: sys_wf_def)
next
  case (rx_unlock s t)
  then have c: "rx_critical (sys_rx s t)" by simp
  then have l: "sys_lock s = Some (Rx_thread t)"
    using sys_wf_rx [OF rx_unlock.prems, of t] by simp
  have "\<not> rx_critical (sys_rx s u)" if "u \<noteq> t" for u
    using sys_wf_rx [OF rx_unlock.prems, of u] l that by simp
  moreover have "sys_stop s \<noteq> Stop_flush" "sys_stop s \<noteq> Stop_unlock"
    using sys_wf_stop [OF rx_unlock.prems] l by auto
  ultimately show ?case by (simp add: sys_wf_def)
next
  case (stop_lock s)
  have n: "\<not> rx_critical (sys_rx s u)" for u
    using sys_wf_rx [OF stop_lock.prems, of u] stop_lock.hyps by simp
  then show ?case by (simp add: sys_wf_def)
next
  case (stop_unlock s)
  have l: "sys_lock s = Some Stop_thread"
    using sys_wf_stop [OF stop_unlock.prems] stop_unlock.hyps by simp
  have "\<not> rx_critical (sys_rx s u)" for u
    using sys_wf_rx [OF stop_unlock.prems, of u] l by simp
  then show ?case by (simp add: sys_wf_def)
qed


lemma find_mac_keeps:
  "netif_running (snd (vxlan_find_mac K v m)) = netif_running v"
  "map eth_addr (fdb_head (snd (vxlan_find_mac K v m)) h) = map eth_addr (fdb_head v h)"
  by (simp_all add: vxlan_find_mac_def split: option.splits)

lemma snoop_found_keeps:
  assumes "vxlan_snoop_found K v f src_ip = Some (d, v')"
  shows "netif_running v' = netif_running v"
    and "map eth_addr (fdb_head v' h) = map eth_addr (fdb_head v h)"
  using assms
  by (auto simp: vxlan_snoop_found_def split: option.splits if_splits)

lemma snoop_learn_explicit:
  "vxlan_snoop_learn K v src_ip src_mac =
     (case vxlan_find_mac_raw K v src_mac of
        Some f \<Rightarrow> v
      | None \<Rightarrow>
          if (addrmax v \<noteq> 0 \<and> addrmax v \<le> addrcnt v) \<or> \<not> kmalloc_fdb K then v
          else v\<lparr>addrcnt := addrcnt v + 1,
                 fdb_head := (fdb_head v)
                   (eth_hash K src_mac :=
                      \<lparr>updated = jiffies K, used = jiffies K,
                       remotes = (if kmalloc_rdst K
                                  then [mk_rdst src_ip (dst_port v) (remote_vni (default_dst v)) 0]
                                  else []),
                       state = NUD_REACHABLE, flags = NTF_SELF, eth_addr = src_mac\<rparr>
                      # fdb_head v (eth_hash K src_mac))\<rparr>)"
proof (cases "vxlan_find_mac_raw K v src_mac")
  case None
  then show ?thesis by (simp add: vxlan_snoop_learn_def create_learn)
next
  case (Some f)
  have "(NLM_F_EXCL OR NLM_F_CREATE) AND NLM_F_EXCL \<noteq> 0"
    by (simp add: NLM_F_EXCL_def NLM_F_CREATE_def)
  then show ?thesis using Some by (simp add: vxlan_snoop_learn_def vxlan_fdb_create_def)
qed

lemma snoop_learn_running:
  "netif_running (vxlan_snoop_learn K v src_ip src_mac) = netif_running v"
  by (simp add: snoop_learn_explicit split: option.splits)

lemma flush_keeps:
  "netif_running (vxlan_flush v) = netif_running v"
  "fdb_head (vxlan_flush v) h = filter (\<lambda>f. is_zero_ether_addr (eth_addr f)) (fdb_head v h)"
  using flush_loop_fst [of fdb_chains "fdb_head v" "addrcnt v" h]
  by (simp_all add: vxlan_flush_def case_prod_unfold set_fdb_chains)

lemma flush_all_zero: "fdb_all_zero (vxlan_flush v)"
  by (simp add: fdb_all_zero_def flush_keeps is_zero_ether_addr_iff)

lemma all_zero_macs:
  assumes "\<forall>h. map eth_addr (fdb_head v' h) = map eth_addr (fdb_head v h)"
  shows "fdb_all_zero v' = fdb_all_zero v"
proof -
  have "fdb_all_zero u \<longleftrightarrow> (\<forall>h. set (map eth_addr (fdb_head u h)) \<subseteq> {all_zeros_mac})" for u
    by (auto simp: fdb_all_zero_def)
  then show ?thesis by (simp only: assms)
qed


lemma stop_inv_step:
  assumes st: "vxlan_step Kb s s'" and inv: "stop_inv s"
  shows "stop_inv s'"
proof -
  have wf: "sys_wf s" and r: "\<not> netif_running (sys_dev s)"
    using inv by (simp_all add: stop_inv_def)
  have c: "sys_rx s u \<noteq> Rx_create a b"
    if "sys_stop s = Stop_flush \<or> sys_stop s = Stop_unlock \<or> sys_stop s = Stop_done" for u a b
    using inv that unfolding stop_inv_def by blast
  have z: "fdb_all_zero (sys_dev s)" if "sys_stop s = Stop_unlock \<or> sys_stop s = Stop_done"
    using inv that unfolding stop_inv_def by blast
  have wf': "sys_wf s'" using st wf by (rule sys_wf_step)
  have "\<not> netif_running (sys_dev s') \<and>
      (sys_stop s' = Stop_flush \<or> sys_stop s' = Stop_unlock \<or> sys_stop s' = Stop_done \<longrightarrow>
         (\<forall>t src_ip src_mac. sys_rx s' t \<noteq> Rx_create src_ip src_mac)) \<and>
      (sys_stop s' = Stop_unlock \<or> sys_stop s' = Stop_done \<longrightarrow> fdb_all_zero (sys_dev s'))"
    using st
  proof cases
    case (rx_arrive t src_ip src_mac)
    then show ?thesis using r c z by auto
  next
    case (rx_find_miss t src_ip src_mac K v)
    have v: "v = snd (vxlan_find_mac K (sys_dev s) src_mac)" using rx_find_miss by simp
    have "netif_running v = netif_running (sys_dev s)"
      "fdb_all_zero v = fdb_all_zero (sys_dev s)"
      unfolding v by (simp_all add: find_mac_keeps all_zero_macs)
    then show ?thesis using rx_find_miss r c z by auto
  next
    case (rx_find_hit t src_ip src_mac K f v dropped v')
    have v: "v = snd (vxlan_find_mac K (sys_dev s) src_mac)" using rx_find_hit by simp
    have "netif_running v' = netif_running (sys_dev s)"
      "fdb_all_zero v' = fdb_all_zero (sys_dev s)"
      using snoop_found_keeps [OF rx_find_hit(5)] unfolding v
      by (simp_all add: find_mac_keeps all_zero_macs)
    then show ?thesis using rx_find_hit r c z by auto
  next
    case (rx_find_fault t src_ip src_mac K f v)
    have v: "v = snd (vxlan_find_mac K (sys_dev s) src_mac)" using rx_find_fault by simp
    have "netif_running v = netif_running (sys_dev s)"
      "fdb_all_zero v = fdb_all_zero (sys_dev s)"
      unfolding v by (simp_all add: find_mac_keeps all_zero_macs)
    then show ?thesis using rx_find_fault r c z by auto
  next
    case (rx_lock t src_ip src_mac)
    then show ?thesis using r c z by auto
  next
    case (rx_check t src_ip src_mac)
    then show ?thesis using r c z by auto
  next
    case (rx_create t src_ip src_mac K)
    have n: "\<not> (sys_stop s = Stop_flush \<or> sys_stop s = Stop_unlock \<or> sys_stop s = Stop_done)"
      using c [of t src_ip src_mac] rx_create(2) by blast
    then show ?thesis using rx_create r by (simp add: snoop_learn_running)
  next
    case (rx_unlock t)
    then show ?thesis using r c z by auto
  next
    case stop_timer
    then show ?thesis using r by simp
  next
    case stop_lock
    have "\<not> rx_critical (sys_rx s u)" for u
      using sys_wf_rx [OF wf, of u] stop_lock by simp
    then have "sys_rx s u \<noteq> Rx_create a b" for u a b
      by (metis rx_critical.simps(2))
    then show ?thesis using stop_lock r by simp
  next
    case stop_flush
    then show ?thesis using r c by (simp add: flush_keeps flush_all_zero)
  next
    case stop_unlock
    then show ?thesis using r c z by simp
  qed
  with wf' show ?thesis by (simp add: stop_inv_def)
qed

lemma hashed_macs:
  assumes "\<forall>h. map eth_addr (fdb_head v' h) = map eth_addr (fdb_head v h)"
  shows "fdb_hashed K v' = fdb_hashed K v"
proof -
  have "fdb_hashed K u \<longleftrightarrow> (\<forall>h. set (map eth_addr (fdb_head u h)) \<subseteq> {m. eth_hash K m = h})" for u
    by (auto simp: fdb_hashed_def)
  then show ?thesis by (simp only: assms)
qed

lemma distinct_macs:
  assumes "\<forall>h. map eth_addr (fdb_head v' h) = map eth_addr (fdb_head v h)"
  shows "fdb_distinct v' = fdb_distinct v"
  unfolding fdb_distinct_def by (simp only: assms)

lemma hashed_same_hash: "eth_hash K = eth_hash Kb \<Longrightarrow> fdb_hashed K v = fdb_hashed Kb v"
  by (simp add: fdb_hashed_def)

lemma table_wf_macs0:
  assumes "\<forall>h. map eth_addr (fdb_head v' h) = map eth_addr (fdb_head v h)"
  shows "fdb_hashed K v' = fdb_hashed K v" "fdb_distinct v' = fdb_distinct v"
  using hashed_macs [OF assms, of K] distinct_macs [OF assms] by simp_all

lemma snoop_learn_macs:
  "(\<forall>h. map eth_addr (fdb_head (vxlan_snoop_learn K v src_ip src_mac) h) =
         map eth_addr (fdb_head v h)) \<or>
   (vxlan_find_mac_raw K v src_mac = None \<and>
    (\<forall>h. map eth_addr (fdb_head (vxlan_snoop_learn K v src_ip src_mac) h) =
         (if h = eth_hash K src_mac then src_mac # map eth_addr (fdb_head v h)
          else map eth_addr (fdb_head v h))))"
  by (simp add: snoop_learn_explicit split: option.split)

lemma find_mac_raw_None:
  "vxlan_find_mac_raw K v mac = None \<Longrightarrow> mac \<notin> set (map eth_addr (fdb_head v (eth_hash K mac)))"
  by (auto simp: vxlan_find_mac_raw_def vxlan_fdb_head_def find_None_iff)

lemma fdb_hashed_macs_iff:
  "fdb_hashed K u \<longleftrightarrow> (\<forall>h. \<forall>m \<in> set (map eth_addr (fdb_head u h)). eth_hash K m = h)"
  by (simp add: fdb_hashed_def)

lemma snoop_learn_wf:
  assumes "fdb_hashed K v" "fdb_distinct v"
  shows "fdb_hashed K (vxlan_snoop_learn K v src_ip src_mac) \<and>
         fdb_distinct (vxlan_snoop_learn K v src_ip src_mac)"
proof -
  let ?v' = "vxlan_snoop_learn K v src_ip src_mac"
  consider (same) "\<forall>h. map eth_addr (fdb_head ?v' h) = map eth_addr (fdb_head v h)"
    | (new) "vxlan_find_mac_raw K v src_mac = None"
        "\<forall>h. map eth_addr (fdb_head ?v' h) =
           (if h = eth_hash K src_mac then src_mac # map eth_addr (fdb_head v h)
            else map eth_addr (fdb_head v h))"
    using snoop_learn_macs [of K v src_ip src_mac] by (elim disjE conjE) simp_all
  then show ?thesis
  proof cases
    case same
    from table_wf_macs0 [OF same] assms show ?thesis by simp
  next
    case new
    have n: "src_mac \<notin> set (map eth_addr (fdb_head v (eth_hash K src_mac)))"
      by (rule find_mac_raw_None [OF new(1)])
    have h0: "\<forall>h. \<forall>m \<in> set (map eth_addr (fdb_head v h)). eth_hash K m = h"
      using assms(1) by (simp only: fdb_hashed_macs_iff)
    have d0: "\<forall>h. distinct (map eth_addr (fdb_head v h))"
      using assms(2) by (simp add: fdb_distinct_def)
    have "\<forall>h. \<forall>m \<in> set (map eth_addr (fdb_head ?v' h)). eth_hash K m = h"
      using h0 by (simp only: new(2)) simp
    moreover have "\<forall>h. distinct (map eth_addr (fdb_head ?v' h))"
      using d0 n by (simp only: new(2)) simp
    ultimately show ?thesis
      by (simp only: fdb_hashed_macs_iff) (simp add: fdb_distinct_def)
  qed
qed

lemma flush_wf:
  assumes "fdb_hashed K v" "fdb_distinct v"
  shows "fdb_hashed K (vxlan_flush v) \<and> fdb_distinct (vxlan_flush v)"
proof -
  have "fdb_hashed K (vxlan_flush v)"
    using assms(1) by (simp add: fdb_hashed_def flush_keeps)
  moreover have "fdb_distinct (vxlan_flush v)"
    using assms(2) by (simp add: fdb_distinct_def flush_keeps distinct_map_filter)
  ultimately show ?thesis by simp
qed


lemma table_wf_macs:
  assumes "\<forall>h. map eth_addr (fdb_head v' h) = map eth_addr (fdb_head v h)"
    and "fdb_hashed K v \<and> fdb_distinct v"
  shows "fdb_hashed K v' \<and> fdb_distinct v'"
  using table_wf_macs0 [OF assms(1)] assms(2) by simp

lemma table_wf_step:
  assumes st: "vxlan_step Kb s s'"
    and wf: "fdb_hashed Kb (sys_dev s) \<and> fdb_distinct (sys_dev s)"
  shows "fdb_hashed Kb (sys_dev s') \<and> fdb_distinct (sys_dev s')"
  using st
proof cases
  case (rx_arrive t src_ip src_mac)
  have "sys_dev s' = sys_dev s" by (simp add: rx_arrive(1))
  then show ?thesis using wf by simp
next
  case (rx_find_miss t src_ip src_mac K v)
  have v: "v = snd (vxlan_find_mac K (sys_dev s) src_mac)" by (simp add: rx_find_miss(4))
  have d: "sys_dev s' = v" by (simp add: rx_find_miss(1))
  have "\<forall>h. map eth_addr (fdb_head v h) = map eth_addr (fdb_head (sys_dev s) h)"
    unfolding v by (simp add: find_mac_keeps)
  from table_wf_macs [OF this wf] show ?thesis by (simp only: d)
next
  case (rx_find_hit t src_ip src_mac K f v dropped v')
  have v: "v = snd (vxlan_find_mac K (sys_dev s) src_mac)" by (simp add: rx_find_hit(4))
  have d: "sys_dev s' = v'" by (simp add: rx_find_hit(1))
  have "\<forall>h. map eth_addr (fdb_head v' h) = map eth_addr (fdb_head (sys_dev s) h)"
    using snoop_found_keeps(2) [OF rx_find_hit(5)] unfolding v by (simp add: find_mac_keeps)
  from table_wf_macs [OF this wf] show ?thesis by (simp only: d)
next
  case (rx_find_fault t src_ip src_mac K f v)
  have v: "v = snd (vxlan_find_mac K (sys_dev s) src_mac)" by (simp add: rx_find_fault(4))
  have d: "sys_dev s' = v" by (simp add: rx_find_fault(1))
  have "\<forall>h. map eth_addr (fdb_head v h) = map eth_addr (fdb_head (sys_dev s) h)"
    unfolding v by (simp add: find_mac_keeps)
  from table_wf_macs [OF this wf] show ?thesis by (simp only: d)
next
  case (rx_lock t src_ip src_mac)
  have "sys_dev s' = sys_dev s" by (simp add: rx_lock(1))
  then show ?thesis using wf by simp
next
  case (rx_check t src_ip src_mac)
  have "sys_dev s' = sys_dev s" by (simp add: rx_check(1))
  then show ?thesis using wf by simp
next
  case (rx_create t src_ip src_mac K)
  have d: "sys_dev s' = vxlan_snoop_learn K (sys_dev s) src_ip src_mac"
    by (simp add: rx_create(1))
  have e: "fdb_hashed K u = fdb_hashed Kb u" for u
    by (rule hashed_same_hash [OF rx_create(3)])
  have "fdb_hashed K (sys_dev s)" "fdb_distinct (sys_dev s)" using wf by (simp_all add: e)
  from snoop_learn_wf [OF this, of src_ip src_mac]
  show ?thesis by (simp only: d e)
next
  case (rx_unlock t)
  have "sys_dev s' = sys_dev s" by (simp add: rx_unlock(1))
  then show ?thesis using wf by simp
next
  case stop_timer
  have "\<forall>h. map eth_addr (fdb_head (sys_dev s') h) = map eth_addr (fdb_head (sys_dev s) h)"
    by (simp add: stop_timer(1))
  from table_wf_macs [OF this wf] show ?thesis .
next
  case stop_lock
  have "sys_dev s' = sys_dev s" by (simp add: stop_lock(1))
  then show ?thesis using wf by simp
next
  case stop_flush
  have d: "sys_dev s' = vxlan_flush (sys_dev s)" by (simp add: stop_flush(1))
  show ?thesis unfolding d using flush_wf [of Kb "sys_dev s"] wf by simp
next
  case stop_unlock
  have "sys_dev s' = sys_dev s" by (simp add: stop_unlock(1))
  then show ?thesis using wf by simp
qed


lemma stop_inv_init:
  "sys_wf s \<Longrightarrow> \<not> netif_running (sys_dev s) \<Longrightarrow> sys_stop s = Stop_timer \<Longrightarrow> stop_inv s"
  by (simp add: stop_inv_def)

lemma stop_inv_reachable:
  assumes "(vxlan_step K)\<^sup>*\<^sup>* s s'" "stop_inv s"
  shows "stop_inv s'"
  using assms
proof (induction rule: rtranclp_induct)
  case base
  then show ?case .
next
  case (step y z)
  show ?case by (rule stop_inv_step [OF step.hyps(2)]) (rule step.IH [OF step.prems])
qed

lemma table_wf_reachable:
  assumes "(vxlan_step K)\<^sup>*\<^sup>* s s'" "fdb_hashed K (sys_dev s) \<and> fdb_distinct (sys_dev s)"
  shows "fdb_hashed K (sys_dev s') \<and> fdb_distinct (sys_dev s')"
  using assms
proof (induction rule: rtranclp_induct)
  case base
  then show ?case .
next
  case (step y z)
  show ?case by (rule table_wf_step [OF step.hyps(2)]) (rule step.IH [OF step.prems])
qed



lemma table_wf_empty:
  "fdb_head v = (\<lambda>h. []) \<Longrightarrow> fdb_hashed K v \<and> fdb_distinct v"
  by (simp add: fdb_hashed_def fdb_distinct_def)

lemma stop_default_entry_only:
  assumes "sys_wf s" and "\<not> netif_running (sys_dev s)" and "sys_stop s = Stop_timer"
    and "(vxlan_step K)\<^sup>*\<^sup>* s s'"
    and "fdb_hashed K (sys_dev s) \<and> fdb_distinct (sys_dev s)"
    and "sys_stop s' = Stop_unlock \<or> sys_stop s' = Stop_done"
  shows "map eth_addr (fdb_head (sys_dev s') h) = [] \<or>
         (h = eth_hash K all_zeros_mac \<and> map eth_addr (fdb_head (sys_dev s') h) = [all_zeros_mac])"
proof -
  have "stop_inv s'"
    by (rule stop_inv_reachable [OF assms(4) stop_inv_init [OF assms(1-3)]])
  then have z: "\<forall>f \<in> set (fdb_head (sys_dev s') h). eth_addr f = all_zeros_mac"
    using assms(6) by (simp add: stop_inv_def fdb_all_zero_def)
  then have z': "\<forall>m \<in> set (map eth_addr (fdb_head (sys_dev s') h)). m = all_zeros_mac"
    by simp
  have w: "fdb_hashed K (sys_dev s')" "fdb_distinct (sys_dev s')"
    using table_wf_reachable [OF assms(4,5)] by simp_all
  have d: "distinct (map eth_addr (fdb_head (sys_dev s') h))"
    using w(2) by (simp add: fdb_distinct_def)
  from distinct_all_equal [OF d z']
  show ?thesis
  proof
    assume "map eth_addr (fdb_head (sys_dev s') h) = []"
    then show ?thesis by simp
  next
    assume e: "map eth_addr (fdb_head (sys_dev s') h) = [all_zeros_mac]"
    then obtain f where f: "f \<in> set (fdb_head (sys_dev s') h)" "eth_addr f = all_zeros_mac"
      by (cases "fdb_head (sys_dev s') h") auto
    have "eth_hash K (eth_addr f) = h"
      using w(1) f(1) by (simp add: fdb_hashed_def)
    with e f(2) show ?thesis by simp
  qed
qed




lemma sys_unlocked_run:
  "\<not> sys_wf sys_unlocked \<and> \<not> netif_running (sys_dev sys_unlocked) \<and>
   sys_stop sys_unlocked = Stop_timer \<and>
   (\<exists>s'. (vxlan_step K0)\<^sup>*\<^sup>* sys_unlocked s' \<and> sys_stop s' = Stop_done \<and>
         map eth_addr (fdb_head (sys_dev s') 2) = [mac_new])"
proof -
  define s1 where "s1 = sys_unlocked\<lparr>sys_dev := (sys_dev sys_unlocked)\<lparr>age_timer := None\<rparr>,
                                     sys_stop := Stop_lock\<rparr>"
  define s2 where "s2 = s1\<lparr>sys_lock := Some Stop_thread, sys_stop := Stop_flush\<rparr>"
  define s3 where "s3 = s2\<lparr>sys_dev := vxlan_flush (sys_dev s2), sys_stop := Stop_unlock\<rparr>"
  define s4 where "s4 = s3\<lparr>sys_lock := None, sys_stop := Stop_done\<rparr>"
  define s5 where "s5 = s4\<lparr>sys_dev := vxlan_snoop_learn K0 (sys_dev s4) 0x0A000005 mac_new,
                         sys_rx := (sys_rx s4)(0 := Rx_unlock)\<rparr>"
  have 1: "vxlan_step K0 sys_unlocked s1"
    unfolding s1_def by (rule vxlan_step.stop_timer) (simp add: sys_unlocked_def sys0_def)
  have 2: "vxlan_step K0 s1 s2"
    unfolding s2_def
    by (rule vxlan_step.stop_lock) (simp_all add: s1_def sys_unlocked_def sys0_def)
  have 3: "vxlan_step K0 s2 s3"
    unfolding s3_def by (rule vxlan_step.stop_flush) (simp add: s2_def)
  have 4: "vxlan_step K0 s3 s4"
    unfolding s4_def by (rule vxlan_step.stop_unlock) (simp add: s3_def)
  have 5: "vxlan_step K0 s4 s5"
    unfolding s5_def
    by (rule vxlan_step.rx_create [where t=0])
       (simp_all add: s4_def s3_def s2_def s1_def sys_unlocked_def sys0_def)
  have r: "(vxlan_step K0)\<^sup>*\<^sup>* sys_unlocked s5"
    using 1 2 3 4 5 by (meson rtranclp.rtrancl_into_rtrancl rtranclp.rtrancl_refl)
  let ?v = "vxlan_flush (dev_down\<lparr>age_timer := None\<rparr>)"
  have d: "sys_dev s5 = vxlan_snoop_learn K0 ?v 0x0A000005 mac_new"
    by (simp add: s5_def s4_def s3_def s2_def s1_def sys_unlocked_def sys0_def)
  have h: "eth_hash K0 mac_new = 2" by (simp add: K0_def mac_new_def)
  have c2: "fdb_head ?v 2 = []" by (simp add: flush_keeps dev_down_def dev1_def)
  have f: "vxlan_find_mac_raw K0 ?v mac_new = None"
    by (simp add: vxlan_find_mac_raw_def vxlan_fdb_head_def h c2)
  have m: "addrmax ?v = 0" "kmalloc_fdb K0"
    by (simp_all add: vxlan_flush_def case_prod_unfold dev_down_def dev1_def dev0_def K0_def)
  have e: "map eth_addr (fdb_head (sys_dev s5) 2) = [mac_new]"
    by (simp add: d snoop_learn_explicit f m h c2)
  have w: "\<not> sys_wf sys_unlocked"
    by (simp add: sys_wf_def sys_unlocked_def sys0_def)
  have "sys_stop s5 = Stop_done" by (simp add: s5_def s4_def)
  with r e have "\<exists>s'. (vxlan_step K0)\<^sup>*\<^sup>* sys_unlocked s' \<and> sys_stop s' = Stop_done \<and>
         map eth_addr (fdb_head (sys_dev s') 2) = [mac_new]"
    by (intro exI [of _ s5]) simp
  with w show ?thesis by (simp add: sys_unlocked_def sys0_def dev_down_def)
qed



lemma sys_wf_idle:
  "sys_lock s = None \<Longrightarrow> \<forall>t. sys_rx s t = Rx_idle \<Longrightarrow> sys_stop s = Stop_timer \<Longrightarrow> sys_wf s"
  by (simp add: sys_wf_def)

lemma sys_wf_dev: "sys_wf (s\<lparr>sys_dev := v\<rparr>) = sys_wf s"
  by (simp add: sys_wf_def)

lemma sys_wf_reachable:
  assumes "(vxlan_step K)\<^sup>*\<^sup>* s s'" "sys_wf s"
  shows "sys_wf s'"
  using assms
proof (induction rule: rtranclp_induct)
  case base
  then show ?case .
next
  case (step y z)
  show ?case by (rule sys_wf_step [OF step.hyps(2)]) (rule step.IH [OF step.prems])
qed






section \<open>The destinations of an entry\<close>

text \<open>
  What does hold of the destination lists: \<open>vxlan_fdb_delete\<close> never leaves an entry
  without a destination, and it destroys the entry when asked to delete its only
  destination; \<open>vxlan_fdb_create\<close> keeps every list non-empty as long as the allocation
  of a destination succeeds.
\<close>

lemma set_hlist_del: "set (hlist_del m gs) \<subseteq> set gs"
  by (induction gs) auto

lemma fdb_destroy_remotes_nonempty:
  assumes "fdb_remotes_nonempty vxlan"
  shows "fdb_remotes_nonempty (vxlan_fdb_destroy K vxlan f)"
  unfolding fdb_remotes_nonempty_def
proof (intro allI ballI)
  fix h g
  assume "g \<in> set (fdb_head (vxlan_fdb_destroy K vxlan f) h)"
  then have "g \<in> set (fdb_head vxlan h)"
    using set_hlist_del [of "eth_addr f" "fdb_head vxlan h"]
    by (auto simp: vxlan_fdb_destroy_def vxlan_fdb_head_def split: if_splits)
  then show "remotes g \<noteq> []" using assms by (auto simp: fdb_remotes_nonempty_def)
qed

lemma remove1_not_singular:
  "d \<in> set xs \<Longrightarrow> \<not> list_is_singular xs \<Longrightarrow> remove1 d xs \<noteq> []"
  by (cases xs; cases "tl xs") (auto simp: list_is_singular_def)

lemma find_rdst_Some_in:
  "vxlan_fdb_find_rdst f ip port vni ifindex = Some d \<Longrightarrow> d \<in> set (remotes f)"
  by (auto simp: vxlan_fdb_find_rdst_def find_Some_iff)

lemma fdb_delete_keeps_remotes:
  assumes "fdb_remotes_nonempty vxlan"
  shows "fdb_remotes_nonempty (snd (vxlan_fdb_delete K vxlan addr ip port vni ifindex))"
proof (cases "vxlan_find_mac_raw K vxlan addr")
  case None
  then show ?thesis using assms by (simp add: vxlan_fdb_delete_def find_mac_None)
next
  case (Some f)
  let ?f = "f\<lparr>used := jiffies K\<rparr>"
  let ?v = "fdb_store K vxlan ?f"
  have rf: "remotes f \<noteq> []"
    using find_mac_raw_in_chain [OF Some] assms by (auto simp: fdb_remotes_nonempty_def)
  have v: "fdb_remotes_nonempty ?v"
    by (rule fdb_store_remotes_nonempty) (use assms rf in simp_all)
  have d: "fdb_remotes_nonempty (vxlan_fdb_destroy K ?v ?f)"
    using v by (rule fdb_destroy_remotes_nonempty)
  have s: "fdb_remotes_nonempty (fdb_store K ?v (?f\<lparr>remotes := remove1 x (remotes ?f)\<rparr>))"
    if "vxlan_fdb_find_rdst ?f ip port vni ifindex = Some x" "\<not> list_is_singular (remotes ?f)" for x
    by (rule fdb_store_remotes_nonempty)
       (use v remove1_not_singular [OF find_rdst_Some_in [OF that(1)] that(2)] in simp_all)
  show ?thesis
    using v d s by (auto simp: vxlan_fdb_delete_def find_mac_Some [OF Some] Let_def split: option.splits)
qed

lemma replace_remotes_nonempty:
  "remotes f \<noteq> [] \<Longrightarrow> remotes (snd (vxlan_fdb_replace f ip port vni ifindex)) \<noteq> []"
  by (auto simp: vxlan_fdb_replace_def split: option.splits list.splits)

lemma fdb_create_keeps_remotes:
  assumes "kmalloc_rdst K" "fdb_remotes_nonempty vxlan"
  shows "fdb_remotes_nonempty (snd (vxlan_fdb_create K vxlan mac ip st nlm port vni ifindex ndm))"
proof (cases "vxlan_find_mac_raw K vxlan mac")
  case None
  have "fdb_remotes_nonempty (vxlan\<lparr>addrcnt := c, fdb_head := (fdb_head vxlan)
      (eth_hash K mac := \<lparr>updated = jiffies K, used = jiffies K,
                    remotes = [mk_rdst ip port vni ifindex],
                    state = st, flags = ndm, eth_addr = mac\<rparr> # fdb_head vxlan (eth_hash K mac))\<rparr>)" for c
    using assms(2) by (auto simp: fdb_remotes_nonempty_def)
  then show ?thesis
    using None assms
    by (auto simp: vxlan_fdb_create_def Let_def vxlan_fdb_append_def vxlan_fdb_find_rdst_def
          vxlan_fdb_head_def)
next
  case (Some f)
  let ?f2 = "fdb_set_state_flags K f st ndm"
  have rf: "remotes ?f2 \<noteq> []"
    using find_mac_raw_in_chain [OF Some] assms(2) by (auto simp: fdb_remotes_nonempty_def)
  have st: "fdb_remotes_nonempty (fdb_store K vxlan g)" if "remotes g \<noteq> []" for g
    using assms(2) that by (rule fdb_store_remotes_nonempty)
  have r3: "remotes (snd (vxlan_fdb_replace ?f2 ip port vni ifindex)) \<noteq> []"
    using rf by (rule replace_remotes_nonempty)
  show ?thesis
    using Some rf r3 st assms(2)
    by (auto simp: vxlan_fdb_create_def Let_def vxlan_fdb_append_def split: option.splits)
qed


lemma find_hlist_del_distinct:
  "distinct (map eth_addr gs) \<Longrightarrow> find (\<lambda>g. eth_addr g = m) (hlist_del m gs) = None"
proof (induction gs)
  case Nil
  then show ?case by simp
next
  case (Cons g gs)
  show ?case
  proof (cases "eth_addr g = m")
    case True
    then have "m \<notin> eth_addr ` set gs" using Cons.prems by auto
    then have "find (\<lambda>g. eth_addr g = m) gs = None" by (auto simp: find_None_iff)
    then show ?thesis using True by simp
  next
    case False
    then show ?thesis using Cons by simp
  qed
qed

lemma fdb_delete_last_destination:
  assumes f: "vxlan_find_mac_raw K vxlan addr = Some f"
    and single: "remotes f = [mk_rdst ip port vni ifindex]"
    and dist: "fdb_distinct vxlan"
  shows "fst (vxlan_fdb_delete K vxlan addr ip port vni ifindex) = Inr () \<and>
         vxlan_find_mac_raw K (snd (vxlan_fdb_delete K vxlan addr ip port vni ifindex)) addr = None"
proof -
  let ?f = "f\<lparr>used := jiffies K\<rparr>"
  let ?v = "fdb_store K vxlan ?f"
  have m: "eth_addr f = addr" using f by (rule find_mac_raw_eth_addr)
  have fr: "vxlan_fdb_find_rdst ?f ip port vni ifindex = Some (mk_rdst ip port vni ifindex)"
    using single by (simp add: vxlan_fdb_find_rdst_def mk_rdst_def)
  have sg: "list_is_singular (remotes ?f)" using single by (simp add: list_is_singular_def)
  have del: "vxlan_fdb_delete K vxlan addr ip port vni ifindex = (Inr (), vxlan_fdb_destroy K ?v ?f)"
    using fr sg by (simp add: vxlan_fdb_delete_def find_mac_Some [OF f] Let_def)
  have "distinct (map eth_addr (fdb_head ?v (eth_hash K addr)))"
    using dist by (simp add: fdb_distinct_def)
  then have "vxlan_find_mac_raw K (vxlan_fdb_destroy K ?v ?f) addr = None"
    using m by (simp add: vxlan_find_mac_raw_def vxlan_fdb_destroy_def vxlan_fdb_head_def
          find_hlist_del_distinct)
  with del show ?thesis by simp
qed

section \<open>Results\<close>

text \<open>
  C1. The claim: the decoder returns NotVxlan if and only if the flags word differs
  from 0x08000000, and a packet with the right flags word but a non-zero low byte in
  the VNI word is dropped, not returned. The source sends both tests to the same label
  ("Return packets with reserved bits set"): the packet \<open>bad_vni_skb\<close> has the flags word
  0x08000000 and is returned to the UDP layer as not VXLAN.
\<close>

theorem vxlan_udp_encap_recv_bad_vni_counterexample:
  "vx_flags bad_vni_skb = 0x08000000 \<and> vx_vni bad_vni_skb AND 0xff \<noteq> 0 \<and>
   vxlan_udp_encap_recv Some (Some ()) bad_vni_skb = NotVxlan"
  by (simp add: vxlan_udp_encap_recv_def pskb_may_pull_def VXLAN_FLAGS_def VXLAN_HLEN_def
        bad_vni_skb_def vx_flags_def vx_vni_def be32_at_def)

text \<open>
  C1, amended. The decoder returns NotVxlan if and only if the packet is shorter than
  the UDP and VXLAN headers, or the flags word differs from 0x08000000, or the low byte
  of the VNI word is not zero.
\<close>

theorem vxlan_udp_encap_recv_not_vxlan:
  "vxlan_udp_encap_recv pull_header find_sock skb = NotVxlan \<longleftrightarrow>
     length (data skb) < VXLAN_HLEN \<or> vx_flags skb \<noteq> 0x08000000 \<or> vx_vni skb AND 0xff \<noteq> 0"
  by (auto simp: vxlan_udp_encap_recv_def pskb_may_pull_def VXLAN_FLAGS_def
           split: option.splits)

theorem vxlan_udp_encap_recv_not_vxlan_witness:
  "vxlan_udp_encap_recv Some (Some ()) bad_vni_skb = NotVxlan \<and>
   vx_flags bad_vni_skb = 0x08000000 \<and> vx_vni bad_vni_skb AND 0xff = 1 \<and>
   length (data bad_vni_skb) = VXLAN_HLEN"
  using vxlan_udp_encap_recv_not_vxlan [of Some "Some ()" bad_vni_skb]
  by (simp add: VXLAN_HLEN_def bad_vni_skb_def vx_flags_def vx_vni_def be32_at_def)

text \<open>
  C2. The claim: every entry reachable by lookup has a non-empty list of destinations,
  entry creation installing the entry with one destination. \<open>vxlan_fdb_create\<close> ignores
  the return code of \<open>vxlan_fdb_append\<close> when it creates an entry: when the allocation
  of the destination fails, the call still returns 0 and the entry is linked into its
  chain with an empty list, where the lookup finds it; the next packet from that MAC
  makes \<open>vxlan_snoop\<close> read the first destination of an empty list.
\<close>

theorem vxlan_fdb_create_empty_remotes:
  "vxlan_find_mac_raw K0 dev1 mac_new = None \<and>
   vxlan_fdb_create (K0\<lparr>kmalloc_rdst := False\<rparr>) dev1 mac_new 0x0A000005 NUD_REACHABLE
       (NLM_F_EXCL OR NLM_F_CREATE) 4789 10 0 NTF_SELF
     = (Inr (), dev1\<lparr>addrcnt := 4,
          fdb_head := (fdb_head dev1)
            (2 := [\<lparr>updated = 1000000, used = 1000000, remotes = [],
                   state = NUD_REACHABLE, flags = NTF_SELF, eth_addr = mac_new\<rparr>])\<rparr>) \<and>
   vxlan_find_mac_raw K0
     (dev1\<lparr>addrcnt := 4,
          fdb_head := (fdb_head dev1)
            (2 := [\<lparr>updated = 1000000, used = 1000000, remotes = [],
                   state = NUD_REACHABLE, flags = NTF_SELF, eth_addr = mac_new\<rparr>])\<rparr>) mac_new
     = Some \<lparr>updated = 1000000, used = 1000000, remotes = [],
                   state = NUD_REACHABLE, flags = NTF_SELF, eth_addr = mac_new\<rparr> \<and>
   vxlan_snoop K0
     (dev1\<lparr>addrcnt := 4,
          fdb_head := (fdb_head dev1)
            (2 := [\<lparr>updated = 1000000, used = 1000000, remotes = [],
                   state = NUD_REACHABLE, flags = NTF_SELF, eth_addr = mac_new\<rparr>])\<rparr>)
     0x0A000005 mac_new = None"
proof -
  have n: "vxlan_find_mac_raw (K0\<lparr>kmalloc_rdst := False\<rparr>) dev1 mac_new = None"
    using find_dev1(4) by (simp add: vxlan_find_mac_raw_def vxlan_fdb_head_def)
  have 1: "vxlan_fdb_create (K0\<lparr>kmalloc_rdst := False\<rparr>) dev1 mac_new 0x0A000005 NUD_REACHABLE
       (NLM_F_EXCL OR NLM_F_CREATE) 4789 10 0 NTF_SELF
     = (Inr (), dev1\<lparr>addrcnt := 4,
          fdb_head := (fdb_head dev1)
            (2 := [\<lparr>updated = 1000000, used = 1000000, remotes = [],
                   state = NUD_REACHABLE, flags = NTF_SELF, eth_addr = mac_new\<rparr>])\<rparr>)"
    by (simp add: create_learn [OF n]) (simp add: K0_def dev1_def dev0_def mac_new_def)
  have 2: "vxlan_find_mac_raw K0
     (dev1\<lparr>addrcnt := 4,
          fdb_head := (fdb_head dev1)
            (2 := [\<lparr>updated = 1000000, used = 1000000, remotes = [],
                   state = NUD_REACHABLE, flags = NTF_SELF, eth_addr = mac_new\<rparr>])\<rparr>) mac_new
     = Some \<lparr>updated = 1000000, used = 1000000, remotes = [],
                   state = NUD_REACHABLE, flags = NTF_SELF, eth_addr = mac_new\<rparr>"
    by (simp add: vxlan_find_mac_raw_def vxlan_fdb_head_def K0_def mac_new_def)
  have 3: "vxlan_snoop K0
     (dev1\<lparr>addrcnt := 4,
          fdb_head := (fdb_head dev1)
            (2 := [\<lparr>updated = 1000000, used = 1000000, remotes = [],
                   state = NUD_REACHABLE, flags = NTF_SELF, eth_addr = mac_new\<rparr>])\<rparr>)
     0x0A000005 mac_new = None"
    by (simp add: vxlan_snoop_def find_mac_Some [OF 2] first_remote_rcu_def)
  from find_dev1(4) 1 2 3 show ?thesis by simp
qed

text \<open>
  C3. The claim: snoop is a no-op on a matching entry, leaves a NOARP entry unchanged,
  and otherwise replaces the first destination's address or, when no entry exists,
  creates a new entry. The lookup of the packet path stamps \<open>used\<close> on the entry it
  finds, so the entry does change; and the source creates the entry only when
  \<open>netif_running\<close> holds: on the device \<open>dev_down\<close>, which is not running, a packet from
  an unknown MAC leaves the table as it was, with no entry for that MAC.
\<close>

theorem vxlan_snoop_counterexample:
  "vxlan_find_mac_raw K0 dev_down mac_new = None \<and>
   vxlan_snoop K0 dev_down 0x0A000005 mac_new = Some (False, dev_down) \<and>
   vxlan_find_mac_raw K0 dev1 mac_uc = Some fdb_uc \<and>
   remotes fdb_uc = [mk_rdst 0x0A000008 4789 10 0] \<and>
   vxlan_snoop K0 dev1 0x0A000008 mac_uc = Some (False, fdb_store K0 dev1 (fdb_uc\<lparr>used := 1000000\<rparr>)) \<and>
   vxlan_find_mac_raw K0 (fdb_store K0 dev1 (fdb_uc\<lparr>used := 1000000\<rparr>)) mac_uc
     = Some (fdb_uc\<lparr>used := 1000000\<rparr>) \<and>
   fdb_uc\<lparr>used := 1000000\<rparr> \<noteq> fdb_uc"
proof -
  have 1: "vxlan_snoop K0 dev_down 0x0A000005 mac_new = Some (False, dev_down)"
    using find_dev_down(1) by (simp add: vxlan_snoop_def find_mac_None dev_down_def)
  have 2: "vxlan_snoop K0 dev1 0x0A000008 mac_uc = Some (False, fdb_store K0 dev1 (fdb_uc\<lparr>used := 1000000\<rparr>))"
    using find_dev1(1)
    by (simp add: vxlan_snoop_def find_mac_Some first_remote_rcu_def)
       (simp add: fdb_uc_def mk_rdst_def K0_def)
  have 3: "vxlan_find_mac_raw K0 (fdb_store K0 dev1 (fdb_uc\<lparr>used := 1000000\<rparr>)) mac_uc
     = Some (fdb_uc\<lparr>used := 1000000\<rparr>)"
    using find_dev1(1) by (simp add: find_mac_raw_fdb_store) (simp add: fdb_uc_def)
  have 4: "fdb_uc\<lparr>used := 1000000\<rparr> \<noteq> fdb_uc" "remotes fdb_uc = [mk_rdst 0x0A000008 4789 10 0]"
    by (simp_all add: fdb_uc_def)
  from 1 2 3 4 find_dev_down(1) find_dev1(1) show ?thesis by simp
qed

text \<open>
  C3, amended. Snoop, given the source MAC and the outer source address of a packet.
  If an entry for the MAC exists, its \<open>used\<close> stamp is set to the current time, and: if
  the address of its first destination matches, nothing else changes and the packet is
  kept; if it differs and the NOARP bit of the state is set, nothing else changes and
  the packet is dropped; otherwise the address of the first destination is replaced,
  \<open>updated\<close> is stamped and the packet is kept. If no entry exists and the device is
  running, the table is not full and the allocations succeed, a new entry is put at the
  head of the MAC's chain, with the one destination (source address, the device's port
  and VNI, no interface), state REACHABLE and flag SELF; if no entry exists and the
  device is not running, the table is full or the entry's allocation fails, nothing
  changes. In both cases the packet is kept.
\<close>

theorem vxlan_snoop_cases:
  "(vxlan_find_mac_raw K vxlan src_mac = Some f \<and> remotes f = rd # rest \<and> remote_ip rd = src_ip \<longrightarrow>
      vxlan_snoop K vxlan src_ip src_mac = Some (False, fdb_store K vxlan (f\<lparr>used := jiffies K\<rparr>))) \<and>
   (vxlan_find_mac_raw K vxlan src_mac = Some f \<and> remotes f = rd # rest \<and> remote_ip rd \<noteq> src_ip \<and>
    state f AND NUD_NOARP \<noteq> 0 \<longrightarrow>
      vxlan_snoop K vxlan src_ip src_mac = Some (True, fdb_store K vxlan (f\<lparr>used := jiffies K\<rparr>))) \<and>
   (vxlan_find_mac_raw K vxlan src_mac = Some f \<and> remotes f = rd # rest \<and> remote_ip rd \<noteq> src_ip \<and>
    state f AND NUD_NOARP = 0 \<longrightarrow>
      vxlan_snoop K vxlan src_ip src_mac =
        Some (False, fdb_store K vxlan
                (f\<lparr>used := jiffies K, remotes := rd\<lparr>remote_ip := src_ip\<rparr> # rest,
                   updated := jiffies K\<rparr>))) \<and>
   (vxlan_find_mac_raw K vxlan src_mac = None \<and> netif_running vxlan \<and>
    (addrmax vxlan = 0 \<or> addrcnt vxlan < addrmax vxlan) \<and> kmalloc_fdb K \<and> kmalloc_rdst K \<longrightarrow>
      vxlan_snoop K vxlan src_ip src_mac =
        Some (False, vxlan\<lparr>addrcnt := addrcnt vxlan + 1,
          fdb_head := (fdb_head vxlan)
            (eth_hash K src_mac :=
               \<lparr>updated = jiffies K, used = jiffies K,
                remotes = [mk_rdst src_ip (dst_port vxlan) (remote_vni (default_dst vxlan)) 0],
                state = NUD_REACHABLE, flags = NTF_SELF, eth_addr = src_mac\<rparr>
               # fdb_head vxlan (eth_hash K src_mac))\<rparr>)) \<and>
   (vxlan_find_mac_raw K vxlan src_mac = None \<and>
    (\<not> netif_running vxlan \<or> (addrmax vxlan \<noteq> 0 \<and> addrmax vxlan \<le> addrcnt vxlan) \<or> \<not> kmalloc_fdb K) \<longrightarrow>
      vxlan_snoop K vxlan src_ip src_mac = Some (False, vxlan))"
proof (intro conjI impI)
  assume "vxlan_find_mac_raw K vxlan src_mac = Some f \<and> remotes f = rd # rest \<and> remote_ip rd = src_ip"
  then show "vxlan_snoop K vxlan src_ip src_mac = Some (False, fdb_store K vxlan (f\<lparr>used := jiffies K\<rparr>))"
    by (simp add: vxlan_snoop_def find_mac_Some first_remote_rcu_def)
next
  assume "vxlan_find_mac_raw K vxlan src_mac = Some f \<and> remotes f = rd # rest \<and> remote_ip rd \<noteq> src_ip \<and>
    state f AND NUD_NOARP \<noteq> 0"
  then show "vxlan_snoop K vxlan src_ip src_mac = Some (True, fdb_store K vxlan (f\<lparr>used := jiffies K\<rparr>))"
    by (simp add: vxlan_snoop_def find_mac_Some first_remote_rcu_def)
next
  assume "vxlan_find_mac_raw K vxlan src_mac = Some f \<and> remotes f = rd # rest \<and> remote_ip rd \<noteq> src_ip \<and>
    state f AND NUD_NOARP = 0"
  then show "vxlan_snoop K vxlan src_ip src_mac =
        Some (False, fdb_store K vxlan
                (f\<lparr>used := jiffies K, remotes := rd\<lparr>remote_ip := src_ip\<rparr> # rest,
                   updated := jiffies K\<rparr>))"
    by (simp add: vxlan_snoop_def find_mac_Some first_remote_rcu_def fdb_store_twice)
next
  assume "vxlan_find_mac_raw K vxlan src_mac = None \<and> netif_running vxlan \<and>
    (addrmax vxlan = 0 \<or> addrcnt vxlan < addrmax vxlan) \<and> kmalloc_fdb K \<and> kmalloc_rdst K"
  then show "vxlan_snoop K vxlan src_ip src_mac =
        Some (False, vxlan\<lparr>addrcnt := addrcnt vxlan + 1,
          fdb_head := (fdb_head vxlan)
            (eth_hash K src_mac :=
               \<lparr>updated = jiffies K, used = jiffies K,
                remotes = [mk_rdst src_ip (dst_port vxlan) (remote_vni (default_dst vxlan)) 0],
                state = NUD_REACHABLE, flags = NTF_SELF, eth_addr = src_mac\<rparr>
               # fdb_head vxlan (eth_hash K src_mac))\<rparr>)"
    by (auto simp: vxlan_snoop_def find_mac_None create_learn)
next
  assume "vxlan_find_mac_raw K vxlan src_mac = None \<and>
    (\<not> netif_running vxlan \<or> (addrmax vxlan \<noteq> 0 \<and> addrmax vxlan \<le> addrcnt vxlan) \<or> \<not> kmalloc_fdb K)"
  then show "vxlan_snoop K vxlan src_ip src_mac = Some (False, vxlan)"
    by (auto simp: vxlan_snoop_def find_mac_None create_learn)
qed

theorem vxlan_snoop_cases_witness:
  "vxlan_snoop K0 dev1 0x0A000008 mac_uc = Some (False, fdb_store K0 dev1 (fdb_uc\<lparr>used := jiffies K0\<rparr>)) \<and>
   vxlan_snoop K0 dev1 0x0A000063 mac_uc =
     Some (False, fdb_store K0 dev1
        (fdb_uc\<lparr>used := jiffies K0, remotes := [mk_rdst 0x0A000063 4789 10 0], updated := jiffies K0\<rparr>)) \<and>
   vxlan_snoop K0 dev1 0x0A000005 mac_new =
     Some (False, dev1\<lparr>addrcnt := 4,
          fdb_head := (fdb_head dev1)
            (2 := [\<lparr>updated = jiffies K0, used = jiffies K0,
                remotes = [mk_rdst 0x0A000005 4789 10 0],
                state = NUD_REACHABLE, flags = NTF_SELF, eth_addr = mac_new\<rparr>])\<rparr>) \<and>
   vxlan_snoop K0 dev_down 0x0A000005 mac_new = Some (False, dev_down)"
proof -
  have a: "remotes fdb_uc = mk_rdst 0x0A000008 4789 10 0 # []"
    "remote_ip (mk_rdst 0x0A000008 4789 10 0) = 0x0A000008"
    "state fdb_uc AND NUD_NOARP = 0"
    "(mk_rdst 0x0A000008 4789 10 0)\<lparr>remote_ip := 0x0A000063\<rparr> = mk_rdst 0x0A000063 4789 10 0"
    by (simp_all add: fdb_uc_def mk_rdst_def NUD_NOARP_def NUD_REACHABLE_def)
  have b: "netif_running dev1" "addrmax dev1 = 0" "kmalloc_fdb K0" "kmalloc_rdst K0"
    "addrcnt dev1 + 1 = 4" "dst_port dev1 = 4789" "remote_vni (default_dst dev1) = 10"
    "eth_hash K0 mac_new = 2" "fdb_head dev1 2 = []" "\<not> netif_running dev_down"
    by (simp_all add: dev1_def dev0_def K0_def mac_new_def mk_rdst_def dev_down_def)
  note t = vxlan_snoop_cases [where K=K0 and f=fdb_uc and rd="mk_rdst 0x0A000008 4789 10 0" and rest="[]"]
  show ?thesis
    using t [where vxlan=dev1 and src_mac=mac_uc and src_ip="0x0A000008"]
      t [where vxlan=dev1 and src_mac=mac_uc and src_ip="0x0A000063"]
      t [where vxlan=dev1 and src_mac=mac_new and src_ip="0x0A000005"]
      t [where vxlan=dev_down and src_mac=mac_new and src_ip="0x0A000005"]
      find_dev1 find_dev_down a b
    by simp
qed

text \<open>
  C4. \<open>vxlan_fdb_create\<close> with REPLACE among the netlink flags. On an existing entry
  (EXCL not set, which fails with EEXIST before) keyed by a unicast MAC and holding one
  destination, the call succeeds and the entry's destination is overwritten in place:
  the result does not depend on the allocator, the entry keeps its place in its chain,
  every other lookup is unchanged and so is the count. On an existing entry keyed by a
  multicast or all-zero MAC the call fails with EOPNOTSUPP. On the creation of a new
  entry (no entry, CREATE set, the table not full) for a multicast or all-zero MAC it
  fails with EOPNOTSUPP and leaves the device as it was.
\<close>

theorem vxlan_fdb_create_replace:
  assumes rep: "nlm AND NLM_F_REPLACE \<noteq> 0"
  shows
   "(vxlan_find_mac_raw K vxlan mac = Some f \<and> nlm AND NLM_F_EXCL = 0 \<and>
     \<not> is_multicast_ether_addr mac \<and> \<not> is_zero_ether_addr mac \<and> remotes f = [d] \<longrightarrow>
       (\<exists>f' v'. f' = (fdb_set_state_flags K f st ndm)\<lparr>remotes := [mk_rdst ip port vni ifindex]\<rparr> \<and>
             v' = fdb_store K vxlan f' \<and>
             (\<forall>a b. vxlan_fdb_create (K\<lparr>kmalloc_fdb := a, kmalloc_rdst := b\<rparr>) vxlan mac ip st nlm
                        port vni ifindex ndm = (Inr (), v')) \<and>
             vxlan_find_mac_raw K v' mac = Some f' \<and>
             (\<forall>m. m \<noteq> mac \<longrightarrow> vxlan_find_mac_raw K v' m = vxlan_find_mac_raw K vxlan m) \<and>
             (\<forall>h. map eth_addr (fdb_head v' h) = map eth_addr (fdb_head vxlan h)) \<and>
             addrcnt v' = addrcnt vxlan)) \<and>
    (vxlan_find_mac_raw K vxlan mac = Some f \<and> nlm AND NLM_F_EXCL = 0 \<and>
     (is_multicast_ether_addr mac \<or> is_zero_ether_addr mac) \<longrightarrow>
       fst (vxlan_fdb_create K vxlan mac ip st nlm port vni ifindex ndm) = Inl EOPNOTSUPP) \<and>
    (vxlan_find_mac_raw K vxlan mac = None \<and> nlm AND NLM_F_CREATE \<noteq> 0 \<and>
     (addrmax vxlan = 0 \<or> addrcnt vxlan < addrmax vxlan) \<and>
     (is_multicast_ether_addr mac \<or> is_zero_ether_addr mac) \<longrightarrow>
       vxlan_fdb_create K vxlan mac ip st nlm port vni ifindex ndm = (Inl EOPNOTSUPP, vxlan))"
proof (intro conjI impI)
  assume h: "vxlan_find_mac_raw K vxlan mac = Some f \<and> nlm AND NLM_F_EXCL = 0 \<and>
     \<not> is_multicast_ether_addr mac \<and> \<not> is_zero_ether_addr mac \<and> remotes f = [d]"
  define f' where "f' = (fdb_set_state_flags K f st ndm)\<lparr>remotes := [mk_rdst ip port vni ifindex]\<rparr>"
  have m: "eth_addr f' = mac" using h find_mac_raw_eth_addr [of K vxlan mac f] by (simp add: f'_def)
  have c: "\<forall>a b. vxlan_fdb_create (K\<lparr>kmalloc_fdb := a, kmalloc_rdst := b\<rparr>) vxlan mac ip st nlm
                        port vni ifindex ndm = (Inr (), fdb_store K vxlan f')"
    using create_existing_unicast_replace [of K vxlan mac f nlm d] h rep by (simp add: f'_def)
  have "vxlan_find_mac_raw K (fdb_store K vxlan f') mac = Some f'"
    using h m by (simp add: find_mac_raw_fdb_store)
  moreover have "\<forall>m. m \<noteq> mac \<longrightarrow>
      vxlan_find_mac_raw K (fdb_store K vxlan f') m = vxlan_find_mac_raw K vxlan m"
    using m by (simp add: find_mac_raw_fdb_store)
  ultimately show "\<exists>f' v'. f' = (fdb_set_state_flags K f st ndm)\<lparr>remotes := [mk_rdst ip port vni ifindex]\<rparr> \<and>
             v' = fdb_store K vxlan f' \<and>
             (\<forall>a b. vxlan_fdb_create (K\<lparr>kmalloc_fdb := a, kmalloc_rdst := b\<rparr>) vxlan mac ip st nlm
                        port vni ifindex ndm = (Inr (), v')) \<and>
             vxlan_find_mac_raw K v' mac = Some f' \<and>
             (\<forall>m. m \<noteq> mac \<longrightarrow> vxlan_find_mac_raw K v' m = vxlan_find_mac_raw K vxlan m) \<and>
             (\<forall>h. map eth_addr (fdb_head v' h) = map eth_addr (fdb_head vxlan h)) \<and>
             addrcnt v' = addrcnt vxlan"
    using c by (simp add: f'_def)
next
  assume "vxlan_find_mac_raw K vxlan mac = Some f \<and> nlm AND NLM_F_EXCL = 0 \<and>
     (is_multicast_ether_addr mac \<or> is_zero_ether_addr mac)"
  then show "fst (vxlan_fdb_create K vxlan mac ip st nlm port vni ifindex ndm) = Inl EOPNOTSUPP"
    using create_existing_multicast_replace [of K vxlan mac f nlm] rep by auto
next
  assume "vxlan_find_mac_raw K vxlan mac = None \<and> nlm AND NLM_F_CREATE \<noteq> 0 \<and>
     (addrmax vxlan = 0 \<or> addrcnt vxlan < addrmax vxlan) \<and>
     (is_multicast_ether_addr mac \<or> is_zero_ether_addr mac)"
  then show "vxlan_fdb_create K vxlan mac ip st nlm port vni ifindex ndm = (Inl EOPNOTSUPP, vxlan)"
    using create_new_multicast_replace [of K vxlan mac nlm] rep by blast
qed

theorem vxlan_fdb_create_replace_witness:
  "vxlan_fdb_create K0 dev1 mac_uc 0x0A000009 NUD_REACHABLE NLM_F_REPLACE 4789 10 0 NTF_SELF
      = (Inr (), fdb_store K0 dev1 (fdb_uc\<lparr>remotes := [mk_rdst 0x0A000009 4789 10 0]\<rparr>)) \<and>
   vxlan_find_mac_raw K0 (fdb_store K0 dev1 (fdb_uc\<lparr>remotes := [mk_rdst 0x0A000009 4789 10 0]\<rparr>)) mac_uc
      = Some (fdb_uc\<lparr>remotes := [mk_rdst 0x0A000009 4789 10 0]\<rparr>) \<and>
   fst (vxlan_fdb_create K0 dev1 mac_mc 0x0A000009 NUD_PERMANENT NLM_F_REPLACE 4789 10 0 NTF_SELF)
     = Inl EOPNOTSUPP \<and>
   vxlan_fdb_create K0 dev1 mac_mc2 0x0A000009 NUD_PERMANENT (NLM_F_CREATE OR NLM_F_REPLACE) 4789 10 0 NTF_SELF
     = (Inl EOPNOTSUPP, dev1)"
proof -
  have r: "NLM_F_REPLACE AND NLM_F_REPLACE \<noteq> 0" "(NLM_F_CREATE OR NLM_F_REPLACE) AND NLM_F_REPLACE \<noteq> 0"
    "NLM_F_REPLACE AND NLM_F_EXCL = 0" "(NLM_F_CREATE OR NLM_F_REPLACE) AND NLM_F_CREATE \<noteq> 0"
    by (simp_all add: NLM_F_REPLACE_def NLM_F_EXCL_def NLM_F_CREATE_def)
  have k: "K0\<lparr>kmalloc_fdb := True, kmalloc_rdst := True\<rparr> = K0" by (simp add: K0_def)
  have m: "\<not> is_multicast_ether_addr mac_uc" "\<not> is_zero_ether_addr mac_uc"
    "is_multicast_ether_addr mac_mc" "is_multicast_ether_addr mac_mc2"
    by (simp_all add: mac_uc_def mac_mc_def mac_mc2_def)
  have s: "remotes fdb_uc = [mk_rdst 0x0A000008 4789 10 0]" "addrmax dev1 = 0"
    "fdb_set_state_flags K0 fdb_uc NUD_REACHABLE NTF_SELF = fdb_uc"
    by (simp_all add: fdb_uc_def dev1_def dev0_def fdb_set_state_flags_def)
  have u: "(\<forall>a b. vxlan_fdb_create (K0\<lparr>kmalloc_fdb := a, kmalloc_rdst := b\<rparr>) dev1 mac_uc 0x0A000009
        NUD_REACHABLE NLM_F_REPLACE 4789 10 0 NTF_SELF
         = (Inr (), fdb_store K0 dev1 (fdb_uc\<lparr>remotes := [mk_rdst 0x0A000009 4789 10 0]\<rparr>))) \<and>
       vxlan_find_mac_raw K0 (fdb_store K0 dev1 (fdb_uc\<lparr>remotes := [mk_rdst 0x0A000009 4789 10 0]\<rparr>)) mac_uc
      = Some (fdb_uc\<lparr>remotes := [mk_rdst 0x0A000009 4789 10 0]\<rparr>)"
    using vxlan_fdb_create_replace [OF r(1), where K=K0 and vxlan=dev1 and mac=mac_uc and f=fdb_uc
      and d="mk_rdst 0x0A000008 4789 10 0" and st=NUD_REACHABLE and ndm=NTF_SELF and ip="0x0A000009"
      and port=4789 and vni=10 and ifindex=0] find_dev1 r m s by simp
  then have "vxlan_fdb_create (K0\<lparr>kmalloc_fdb := True, kmalloc_rdst := True\<rparr>) dev1 mac_uc 0x0A000009
        NUD_REACHABLE NLM_F_REPLACE 4789 10 0 NTF_SELF
         = (Inr (), fdb_store K0 dev1 (fdb_uc\<lparr>remotes := [mk_rdst 0x0A000009 4789 10 0]\<rparr>))" by blast
  then have 1: "vxlan_fdb_create K0 dev1 mac_uc 0x0A000009
        NUD_REACHABLE NLM_F_REPLACE 4789 10 0 NTF_SELF
         = (Inr (), fdb_store K0 dev1 (fdb_uc\<lparr>remotes := [mk_rdst 0x0A000009 4789 10 0]\<rparr>))"
    by (simp only: k)
  have 3: "fst (vxlan_fdb_create K0 dev1 mac_mc 0x0A000009 NUD_PERMANENT NLM_F_REPLACE 4789 10 0 NTF_SELF)
     = Inl EOPNOTSUPP"
    using vxlan_fdb_create_replace [OF r(1), where K=K0 and vxlan=dev1 and mac=mac_mc and f=fdb_mc]
      find_dev1 r m by simp
  have 4: "vxlan_fdb_create K0 dev1 mac_mc2 0x0A000009 NUD_PERMANENT (NLM_F_CREATE OR NLM_F_REPLACE) 4789 10 0 NTF_SELF
     = (Inl EOPNOTSUPP, dev1)"
    using vxlan_fdb_create_replace [OF r(2), where K=K0 and vxlan=dev1 and mac=mac_mc2]
      find_dev1 r m s by simp
  from 1 u 3 4 show ?thesis by blast
qed

text \<open>
  C5. The claim: APPEND on an existing entry keyed by a unicast MAC fails with
  Unsupported. In the source the APPEND branch is guarded by the multicast/zero test
  and has no \<open>else\<close>: on the unicast entry of \<open>dev1\<close> the call returns 0 and the entry
  is as before.
\<close>

theorem vxlan_fdb_create_append_counterexample:
  "\<not> is_multicast_ether_addr mac_uc \<and> \<not> is_zero_ether_addr mac_uc \<and>
   vxlan_find_mac_raw K0 dev1 mac_uc = Some fdb_uc \<and>
   fst (vxlan_fdb_create K0 dev1 mac_uc 0x0A00000A NUD_REACHABLE NLM_F_APPEND 4789 10 0 NTF_SELF)
     = Inr () \<and>
   vxlan_find_mac_raw K0
     (snd (vxlan_fdb_create K0 dev1 mac_uc 0x0A00000A NUD_REACHABLE NLM_F_APPEND 4789 10 0 NTF_SELF))
     mac_uc = Some fdb_uc"
proof -
  have fl: "NLM_F_APPEND AND NLM_F_APPEND \<noteq> 0" "NLM_F_APPEND AND NLM_F_EXCL = 0"
     "NLM_F_APPEND AND NLM_F_REPLACE = 0"
    by (simp_all add: NLM_F_REPLACE_def NLM_F_EXCL_def NLM_F_APPEND_def)
  have m: "\<not> is_multicast_ether_addr mac_uc" "\<not> is_zero_ether_addr mac_uc"
    by (simp_all add: mac_uc_def)
  have s: "fdb_set_state_flags K0 fdb_uc NUD_REACHABLE NTF_SELF = fdb_uc" "eth_addr fdb_uc = mac_uc"
    by (simp_all add: fdb_uc_def fdb_set_state_flags_def)
  have "vxlan_fdb_create K0 dev1 mac_uc 0x0A00000A NUD_REACHABLE NLM_F_APPEND 4789 10 0 NTF_SELF
      = (Inr (), fdb_store K0 dev1 fdb_uc)"
    using create_existing_append [OF find_dev1(1) fl] m s by simp
  then show ?thesis
    using m find_dev1(1) s by (simp add: find_mac_raw_fdb_store)
qed

text \<open>
  C5, amended. \<open>vxlan_fdb_create\<close> with APPEND (and neither EXCL nor REPLACE) on an
  existing entry: keyed by a unicast MAC, the call succeeds and the destination list is
  unchanged (APPEND is ignored); keyed by a multicast or all-zero MAC, a destination not
  on the list is added at its end when its allocation succeeds, and a destination
  already on the list leaves the list unchanged. In each case the state and flags of the
  entry are set to those of the call.
\<close>

theorem vxlan_fdb_create_append:
  assumes "nlm AND NLM_F_APPEND \<noteq> 0" and "nlm AND NLM_F_EXCL = 0" and "nlm AND NLM_F_REPLACE = 0"
    and "vxlan_find_mac_raw K vxlan mac = Some f"
  shows
    "(\<not> is_multicast_ether_addr mac \<and> \<not> is_zero_ether_addr mac \<longrightarrow>
       vxlan_fdb_create K vxlan mac ip st nlm port vni ifindex ndm
         = (Inr (), fdb_store K vxlan (fdb_set_state_flags K f st ndm))) \<and>
     ((is_multicast_ether_addr mac \<or> is_zero_ether_addr mac) \<and>
      mk_rdst ip port vni ifindex \<notin> set (remotes f) \<and> kmalloc_rdst K \<longrightarrow>
       vxlan_fdb_create K vxlan mac ip st nlm port vni ifindex ndm
         = (Inr (), fdb_store K vxlan
              ((fdb_set_state_flags K f st ndm)\<lparr>remotes := remotes f @ [mk_rdst ip port vni ifindex]\<rparr>))) \<and>
     ((is_multicast_ether_addr mac \<or> is_zero_ether_addr mac) \<and>
      mk_rdst ip port vni ifindex \<in> set (remotes f) \<longrightarrow>
       vxlan_fdb_create K vxlan mac ip st nlm port vni ifindex ndm
         = (Inr (), fdb_store K vxlan (fdb_set_state_flags K f st ndm))) \<and>
     remotes (fdb_set_state_flags K f st ndm) = remotes f \<and>
     (\<forall>g. eth_addr g = mac \<longrightarrow> vxlan_find_mac_raw K (fdb_store K vxlan g) mac = Some g)"
  using create_existing_append [OF assms(4) assms(1-3), where ip=ip and port=port and vni=vni
      and ifindex=ifindex and st=st and ndm=ndm] assms(4)
  by (simp add: find_mac_raw_fdb_store)

theorem vxlan_fdb_create_append_witness:
  "vxlan_fdb_create K0 dev1 mac_mc 0x0A00000A NUD_PERMANENT NLM_F_APPEND 4789 10 0 NTF_SELF
       = (Inr (), fdb_store K0 dev1
            (fdb_mc\<lparr>remotes := [mk_rdst 0xEF010101 4789 10 0, mk_rdst 0x0A00000A 4789 10 0]\<rparr>)) \<and>
   vxlan_fdb_create K0 dev1 mac_mc 0xEF010101 NUD_PERMANENT NLM_F_APPEND 4789 10 0 NTF_SELF
       = (Inr (), fdb_store K0 dev1 fdb_mc) \<and>
   vxlan_fdb_create K0 dev1 mac_uc 0x0A00000A NUD_REACHABLE NLM_F_APPEND 4789 10 0 NTF_SELF
       = (Inr (), fdb_store K0 dev1 fdb_uc)"
proof -
  have fl: "NLM_F_APPEND AND NLM_F_APPEND \<noteq> 0" "NLM_F_APPEND AND NLM_F_EXCL = 0"
     "NLM_F_APPEND AND NLM_F_REPLACE = 0"
    by (simp_all add: NLM_F_REPLACE_def NLM_F_EXCL_def NLM_F_APPEND_def)
  have m: "is_multicast_ether_addr mac_mc" "kmalloc_rdst K0"
    "mk_rdst 0x0A00000A 4789 10 0 \<notin> set (remotes fdb_mc)"
    "mk_rdst 0xEF010101 4789 10 0 \<in> set (remotes fdb_mc)"
    "remotes fdb_mc = [mk_rdst 0xEF010101 4789 10 0]"
    "fdb_set_state_flags K0 fdb_mc NUD_PERMANENT NTF_SELF = fdb_mc"
    "\<not> is_multicast_ether_addr mac_uc" "\<not> is_zero_ether_addr mac_uc"
    "fdb_set_state_flags K0 fdb_uc NUD_REACHABLE NTF_SELF = fdb_uc"
    by (simp_all add: mac_mc_def mac_uc_def K0_def fdb_mc_def fdb_uc_def mk_rdst_def fdb_set_state_flags_def)
  show ?thesis
    using vxlan_fdb_create_append [OF fl find_dev1(2), where ip="0x0A00000A" and port=4789 and vni=10
        and ifindex=0 and st=NUD_PERMANENT and ndm=NTF_SELF]
      vxlan_fdb_create_append [OF fl find_dev1(2), where ip="0xEF010101" and port=4789 and vni=10
        and ifindex=0 and st=NUD_PERMANENT and ndm=NTF_SELF]
      vxlan_fdb_create_append [OF fl find_dev1(1), where ip="0x0A00000A" and port=4789 and vni=10
        and ifindex=0 and st=NUD_REACHABLE and ndm=NTF_SELF]
      m by simp
qed

text \<open>
  C6. One run of \<open>vxlan_cleanup\<close> on a running device, at time \<open>jiffies\<close> with the
  threshold \<open>age_interval * HZ\<close> ticks, where the clock, the threshold, the rescan
  interval and the \<open>used\<close> stamps lie below 2^62 ticks (so that no sum wraps around and
  the signed comparisons of jiffies are comparisons of numbers). Every chain keeps
  exactly the entries that have not expired in the sense of \<open>spec_expired\<close>: the removed
  ones are those whose state is not PERMANENT and whose \<open>used\<close> is at or before the time
  minus the threshold. An entry with the PERMANENT bit stays. The timer is set to the
  earliest of the rescan time \<open>jiffies + 10 * HZ\<close> and the expiry times of the surviving
  entries that are not PERMANENT.
\<close>

theorem vxlan_cleanup_ageing:
  assumes run: "netif_running vxlan"
    and j: "unat (jiffies K) < 2 ^ 62"
    and T: "unat (age_interval vxlan) * unat (HZ K) < 2 ^ 62"
    and hz: "10 * unat (HZ K) < 2 ^ 62"
    and u: "\<forall>h. \<forall>f\<in>set (fdb_head vxlan h). unat (used f) < 2 ^ 62"
  shows
    "(\<forall>h. fdb_head (vxlan_cleanup K vxlan) h
            = filter (\<lambda>f. \<not> spec_expired K (age_interval vxlan) f) (fdb_head vxlan h)) \<and>
     (\<forall>h. \<forall>f\<in>set (fdb_head vxlan h).
         state f AND NUD_PERMANENT \<noteq> 0 \<longrightarrow> f \<in> set (fdb_head (vxlan_cleanup K vxlan) h)) \<and>
     (\<exists>nt. age_timer (vxlan_cleanup K vxlan) = Some nt \<and>
        unat nt \<le> unat (jiffies K) + 10 * unat (HZ K) \<and>
        (\<forall>h. \<forall>f\<in>set (fdb_head (vxlan_cleanup K vxlan) h).
            state f AND NUD_PERMANENT = 0 \<longrightarrow>
              unat nt \<le> unat (used f) + unat (age_interval vxlan) * unat (HZ K)) \<and>
        (unat nt = unat (jiffies K) + 10 * unat (HZ K) \<or>
         (\<exists>h. \<exists>f\<in>set (fdb_head (vxlan_cleanup K vxlan) h).
            state f AND NUD_PERMANENT = 0 \<and>
            unat nt = unat (used f) + unat (age_interval vxlan) * unat (HZ K))))"
proof -
  let ?age = "age_interval vxlan"
  let ?T = "unat ?age * unat (HZ K)"
  let ?nt0 = "jiffies K + FDB_AGE_INTERVAL K"
  let ?r = "vxlan_cleanup_loop K ?age fdb_chains (fdb_head vxlan) (addrcnt vxlan) ?nt0"
  define nt where "nt = snd (snd ?r)"
  have n0: "unat ?nt0 = unat (jiffies K) + 10 * unat (HZ K)"
    unfolding FDB_AGE_INTERVAL_def using j hz by (rule unat_rescan)
  have n63: "unat ?nt0 < 2 ^ 63" using n0 j hz by simp
  have heads: "fdb_head (vxlan_cleanup K vxlan) h
      = filter (\<lambda>f. \<not> spec_expired K ?age f) (fdb_head vxlan h)" for h
  proof -
    have "fdb_head (vxlan_cleanup K vxlan) h = fst ?r h"
      using run by (simp add: vxlan_cleanup_def case_prod_unfold)
    also have "\<dots> = filter (\<lambda>f. \<not> spec_expired K ?age f) (fdb_head vxlan h)"
      using cleanup_loop_fst [OF j T u, of fdb_chains "addrcnt vxlan" ?nt0 h]
      by (simp add: set_fdb_chains)
    finally show ?thesis .
  qed
  have timer: "age_timer (vxlan_cleanup K vxlan) = Some nt"
    using run by (simp add: vxlan_cleanup_def case_prod_unfold nt_def)
  note lt = cleanup_loop_timer [OF j T u n63 distinct_fdb_chains, of "addrcnt vxlan",
      folded nt_def, unfolded set_fdb_chains]
  have surv: "f \<in> set (fdb_head (vxlan_cleanup K vxlan) h) \<longleftrightarrow>
      f \<in> set (fdb_head vxlan h) \<and> \<not> spec_expired K ?age f" for f h
    by (simp add: heads)
  have 1: "unat nt \<le> unat (jiffies K) + 10 * unat (HZ K)"
    using lt n0 by simp
  have 2: "\<forall>h. \<forall>f\<in>set (fdb_head (vxlan_cleanup K vxlan) h).
            state f AND NUD_PERMANENT = 0 \<longrightarrow> unat nt \<le> unat (used f) + ?T"
  proof (intro allI ballI impI)
    fix h f
    assume "f \<in> set (fdb_head (vxlan_cleanup K vxlan) h)" "state f AND NUD_PERMANENT = 0"
    then have "f \<in> set (fdb_head vxlan h)" "\<not> spec_expired K ?age f \<and> state f AND NUD_PERMANENT = 0"
      by (simp_all add: surv)
    with lt show "unat nt \<le> unat (used f) + ?T" by blast
  qed
  have 3: "unat nt = unat (jiffies K) + 10 * unat (HZ K) \<or>
         (\<exists>h. \<exists>f\<in>set (fdb_head (vxlan_cleanup K vxlan) h).
            state f AND NUD_PERMANENT = 0 \<and> unat nt = unat (used f) + ?T)"
  proof -
    from lt have "nt = ?nt0 \<or> (\<exists>h\<in>UNIV. \<exists>f\<in>set (fdb_head vxlan h). \<not> spec_expired K ?age f \<and>
        state f AND NUD_PERMANENT = 0 \<and> unat nt = unat (used f) + ?T)" by blast
    then show ?thesis
    proof
      assume "nt = ?nt0"
      then show ?thesis using n0 by simp
    next
      assume "\<exists>h\<in>UNIV. \<exists>f\<in>set (fdb_head vxlan h). \<not> spec_expired K ?age f \<and>
        state f AND NUD_PERMANENT = 0 \<and> unat nt = unat (used f) + ?T"
      then obtain h f where "f \<in> set (fdb_head vxlan h)" "\<not> spec_expired K ?age f"
        "state f AND NUD_PERMANENT = 0" "unat nt = unat (used f) + ?T" by blast
      then have "f \<in> set (fdb_head (vxlan_cleanup K vxlan) h) \<and>
         state f AND NUD_PERMANENT = 0 \<and> unat nt = unat (used f) + ?T"
        by (simp add: surv)
      then show ?thesis by blast
    qed
  qed
  have 4: "\<forall>h. \<forall>f\<in>set (fdb_head vxlan h).
         state f AND NUD_PERMANENT \<noteq> 0 \<longrightarrow> f \<in> set (fdb_head (vxlan_cleanup K vxlan) h)"
    by (simp add: surv spec_expired_def)
  show ?thesis using heads timer 1 2 3 4 by blast
qed

theorem vxlan_cleanup_ageing_witness:
  "fdb_head (vxlan_cleanup K0 dev_age) 4 = [] \<and>
   fdb_head (vxlan_cleanup K0 dev_age) 2 = [fdb_fresh] \<and>
   fdb_head (vxlan_cleanup K0 dev_age) 1 = [fdb_mc] \<and>
   fdb_head (vxlan_cleanup K0 dev_age) 0 = [fdb_zero] \<and>
   age_timer (vxlan_cleanup K0 dev_age) = Some 1005000"
proof -
  have a: "age_interval dev_age = 300" "netif_running dev_age"
    by (simp_all add: dev_age_def dev1_def dev0_def)
  have k: "unat (jiffies K0) = 1000000" "unat (HZ K0) = 1000"
    by (simp_all add: K0_def)
  have u: "\<forall>h. \<forall>f\<in>set (fdb_head dev_age h). unat (used f) < 2 ^ 62"
    by (simp add: dev_age_chain fdb_uc_def fdb_fresh_def fdb_mc_def fdb_zero_def)
  have us: "unat (used fdb_fresh) = 705000" by (simp add: fdb_fresh_def)
  have p: "netif_running dev_age" "unat (jiffies K0) < 2 ^ 62"
    "unat (age_interval dev_age) * unat (HZ K0) < 2 ^ 62" "10 * unat (HZ K0) < 2 ^ 62"
    using a k by simp_all
  note t = vxlan_cleanup_ageing [OF p u]
  from t have heads: "fdb_head (vxlan_cleanup K0 dev_age) h
        = filter (\<lambda>f. \<not> spec_expired K0 300 f) (fdb_head dev_age h)" for h
    unfolding a by blast
  have c: "fdb_head (vxlan_cleanup K0 dev_age) h =
     (if h = 2 then [fdb_fresh] else if h = 0 then [fdb_zero] else if h = 1 then [fdb_mc] else [])" for h
    by (simp add: heads dev_age_chain dev_age_expired)
  from t obtain nt where nt: "age_timer (vxlan_cleanup K0 dev_age) = Some nt"
    and le0: "\<forall>h. \<forall>f\<in>set (fdb_head (vxlan_cleanup K0 dev_age) h).
            state f AND NUD_PERMANENT = 0 \<longrightarrow>
              unat nt \<le> unat (used f) + unat (age_interval dev_age) * unat (HZ K0)"
    and ex0: "unat nt = unat (jiffies K0) + 10 * unat (HZ K0) \<or>
         (\<exists>h. \<exists>f\<in>set (fdb_head (vxlan_cleanup K0 dev_age) h).
            state f AND NUD_PERMANENT = 0 \<and>
            unat nt = unat (used f) + unat (age_interval dev_age) * unat (HZ K0))"
    by blast
  have ak: "unat (age_interval dev_age) * unat (HZ K0) = 300 * 1000"
    "unat (jiffies K0) + 10 * unat (HZ K0) = 1000000 + 10 * 1000"
    using a k by simp_all
  note le = le0 [unfolded ak] and ex = ex0 [unfolded ak]
  have "fdb_fresh \<in> set (fdb_head (vxlan_cleanup K0 dev_age) 2)" by (simp add: c)
  with le have "unat nt \<le> unat (used fdb_fresh) + 300 * 1000"
    using dev_age_expired(5) by blast
  then have le': "unat nt \<le> 1005000" by (simp add: us)
  have "unat nt = 1005000"
    using ex
  proof
    assume "unat nt = 1000000 + 10 * 1000"
    then show ?thesis using le' by simp
  next
    assume "\<exists>h. \<exists>f\<in>set (fdb_head (vxlan_cleanup K0 dev_age) h).
            state f AND NUD_PERMANENT = 0 \<and> unat nt = unat (used f) + 300 * 1000"
    then obtain h f where f: "f \<in> set (fdb_head (vxlan_cleanup K0 dev_age) h)"
      "state f AND NUD_PERMANENT = 0" "unat nt = unat (used f) + 300 * 1000" by blast
    from f(1,2) have "f = fdb_fresh"
      using dev_age_expired(6,7) by (auto simp: c split: if_splits)
    then show ?thesis using f(3) us by simp
  qed
  then have "nt = 1005000" by (simp add: word_unat_eq_iff)
  then show ?thesis using nt c [of 4] c [of 2] c [of 1] c [of 0] by simp
qed

text \<open>
  C7. The claim: the outer TOS is the endpoint's \<open>tos\<close>, where 0 means that the inner
  DSCP is copied and every other value is used as it is. In the source the value that
  inherits is 1: with \<open>tos\<close> = 0 and an inner TOS byte 0xb8 the outer TOS is 0, and with
  \<open>tos\<close> = 1 it is 0xb8.
\<close>

theorem vxlan_xmit_one_tos_counterexample:
  "tos dev0 = 0 \<and> xe_dsfield xe0 = 0xb8 \<and>
   vxlan_xmit_one xe0 dev0 frame0 rdst0 False =
     Xmit_skb \<lparr>xs_src = 0x0A000001, xs_dst = 0x0A000005, xs_tos = 0, xs_ttl = 64, xs_df = 0,
       xs_src_port = 46884, xs_dst_port = 4789, xs_vni = 0xA00\<rparr> \<and>
   vxlan_xmit_one xe0 (dev0\<lparr>tos := 1\<rparr>) frame0 rdst0 False =
     Xmit_skb \<lparr>xs_src = 0x0A000001, xs_dst = 0x0A000005, xs_tos = 0xb8, xs_ttl = 64, xs_df = 0,
       xs_src_port = 46884, xs_dst_port = 4789, xs_vni = 0xA00\<rparr>"
  by (simp add: vxlan_xmit_one_def Let_def dev0_def rdst0_def mk_rdst_def src_port0
        IN_MULTICAST_def RT_TOS_def INET_ECN_encapsulate_def)
     (simp add: xe0_def INET_ECN_encapsulate_def)

text \<open>
  C7, amended. When \<open>vxlan_xmit_one\<close> encapsulates, the TOS it passes on is the ECN
  encapsulation of: the inner header's TOS byte when the endpoint's \<open>tos\<close> is 1, and the
  endpoint's \<open>tos\<close> as it is for every other value, 0 included.
\<close>

theorem vxlan_xmit_one_tos:
  "vxlan_xmit_one E vxlan skb rdst did_rsc = Xmit_skb a \<Longrightarrow>
     xs_tos a = xe_ecn_encap E (if tos vxlan = 1 then xe_dsfield E else tos vxlan)"
  by (auto simp: vxlan_xmit_one_def Let_def split: if_splits option.splits)

theorem vxlan_xmit_one_tos_witness:
  "vxlan_xmit_one xe0 (dev0\<lparr>tos := 1\<rparr>) frame0 rdst0 False =
     Xmit_skb \<lparr>xs_src = 0x0A000001, xs_dst = 0x0A000005, xs_tos = 0xb8, xs_ttl = 64, xs_df = 0,
       xs_src_port = 46884, xs_dst_port = 4789, xs_vni = 0xA00\<rparr> \<and>
   xe_ecn_encap xe0 (xe_dsfield xe0) = 0xb8"
proof -
  have x: "vxlan_xmit_one xe0 (dev0\<lparr>tos := 1\<rparr>) frame0 rdst0 False =
     Xmit_skb \<lparr>xs_src = 0x0A000001, xs_dst = 0x0A000005, xs_tos = 0xb8, xs_ttl = 64, xs_df = 0,
       xs_src_port = 46884, xs_dst_port = 4789, xs_vni = 0xA00\<rparr>"
    by (simp add: vxlan_xmit_one_def Let_def dev0_def rdst0_def mk_rdst_def src_port0
        IN_MULTICAST_def RT_TOS_def INET_ECN_encapsulate_def)
     (simp add: xe0_def INET_ECN_encapsulate_def)
  from vxlan_xmit_one_tos [OF x] show ?thesis using x by simp
qed

text \<open>
  C8. The outer UDP source port is a function of the first 12 bytes of the inner frame
  (the two MAC addresses) and of the protocol: two frames that agree on them get the
  same port. For a range with lo \<le> hi the port is lo + (hash * (hi - lo + 1)) >> 32,
  which lies in [lo, hi].
\<close>

theorem vxlan_src_port_flow:
  "(take (2 * ETH_ALEN) (data skb') = take (2 * ETH_ALEN) (data skb) \<and> protocol skb' = protocol skb
      \<longrightarrow> vxlan_src_port jhash pmin pmax skb' = vxlan_src_port jhash pmin pmax skb) \<and>
   (pmin \<le> pmax \<longrightarrow>
      unat (vxlan_src_port jhash pmin pmax skb) =
        unat pmin + unat (jhash (take (2 * ETH_ALEN) (data skb)) (ucast (protocol skb)))
                    * (unat pmax - unat pmin + 1) div 2 ^ 32 \<and>
      pmin \<le> vxlan_src_port jhash pmin pmax skb \<and> vxlan_src_port jhash pmin pmax skb \<le> pmax)"
proof (intro conjI impI)
  assume "take (2 * ETH_ALEN) (data skb') = take (2 * ETH_ALEN) (data skb) \<and> protocol skb' = protocol skb"
  then show "vxlan_src_port jhash pmin pmax skb' = vxlan_src_port jhash pmin pmax skb"
    by (simp add: vxlan_src_port_def)
next
  assume le: "pmin \<le> pmax"
  let ?h = "unat (jhash (take (2 * ETH_ALEN) (data skb)) (ucast (protocol skb)))"
  let ?r = "unat pmax - unat pmin + 1"
  show eq: "unat (vxlan_src_port jhash pmin pmax skb) = unat pmin + ?h * ?r div 2 ^ 32"
    using unat_src_port [OF le, of jhash skb] by (simp add: ETH_ALEN_def)
  have "?h < 2 ^ 32"
    using unsigned_less [of "jhash (take (2 * ETH_ALEN) (data skb)) (ucast (protocol skb))", where 'a=nat]
    by simp
  then have "?h * ?r div 2 ^ 32 < ?r"
    using scaled_hash_less [of ?h ?r] by simp
  moreover have "unat pmin \<le> unat pmax" using le by (simp add: word_le_nat_alt)
  ultimately have "unat pmin \<le> unat (vxlan_src_port jhash pmin pmax skb)"
    and "unat (vxlan_src_port jhash pmin pmax skb) \<le> unat pmax"
    using eq by simp_all
  then show "pmin \<le> vxlan_src_port jhash pmin pmax skb" "vxlan_src_port jhash pmin pmax skb \<le> pmax"
    by (simp_all add: word_le_nat_alt)
qed

theorem vxlan_src_port_flow_witness:
  "vxlan_src_port (xe_jhash xe0) 32768 61000 frame1 = vxlan_src_port (xe_jhash xe0) 32768 61000 frame0 \<and>
   unat (vxlan_src_port (xe_jhash xe0) 32768 61000 frame0) = 32768 + 2147483648 * 28233 div 2 ^ 32 \<and>
   (32768 :: u16) \<le> vxlan_src_port (xe_jhash xe0) 32768 61000 frame0 \<and>
   vxlan_src_port (xe_jhash xe0) 32768 61000 frame0 \<le> 61000"
  using vxlan_src_port_flow [of frame1 frame0 "xe_jhash xe0" 32768 61000]
  by (simp add: frame0_def frame1_def ETH_ALEN_def xe0_def)

text \<open>
  C9. The claim: validation rejects the ID attribute with ERANGE exactly when
  ID \<ge> 2^24, so that every VNI in 0..2^24-1 passes. The source compares the ID with
  \<open>VXLAN_VID_MASK\<close> = 2^24 - 1 using \<open>>=\<close>: the largest 24-bit VNI, 0xFFFFFF, is
  rejected with ERANGE although it lies in the documented range.
\<close>

theorem vxlan_validate_max_vni_rejected:
  "vxlan_validate None
     (Some \<lparr>IFLA_VXLAN_ID = Some 0xFFFFFF, IFLA_VXLAN_PORT_RANGE = None\<rparr>) = Inl ERANGE"
  by (simp add: vxlan_validate_def VXLAN_VID_MASK_def VXLAN_N_VID_def)



end
